(* ===== verification/Prelude.thy ===== *)
theory Prelude
  imports Main "HOL-Library.Word" "HOL-Library.Char_ord"
begin

text \<open>
  What every component shares: Go's 64-bit \<open>int\<close> with its wrap-around, checked indexing
  and slicing (out of range is a run-time panic), the three ways a Go call ends (it
  returns, it returns an error, it panics), and generic lemmas on lists and words.
\<close>

unbundle bit_operations_syntax

named_theorems go_simps \<open>characteristic equations of the Go primitives\<close>

type_synonym u8 = "8 word"
type_synonym u32 = "32 word"
type_synonym u64 = "64 word"
type_synonym bytes = "8 word list"

section \<open>How a call ends\<close>

text \<open>
  \<open>Error e\<close> is a returned error value, \<open>Panic msg\<close> a run-time panic (index or slice out of
  range, nil dereference, close of a closed channel), with Go's message.
\<close>

datatype 'e fault = Error 'e | Panic string

type_synonym ('e, 'a) result = "'e fault + 'a"

definition panics :: "('e, 'a) result \<Rightarrow> bool" where
  "panics r = (case r of Inl (Panic _) \<Rightarrow> True | _ \<Rightarrow> False)"

text \<open>A call that returns its errors as values of \<open>'a\<close> ends in an \<open>outcome\<close>.\<close>

datatype 'a outcome = Returns 'a | Panics string

lemma panics_simps [simp]:
  "panics (Inl (Panic s))" "\<not> panics (Inl (Error e))" "\<not> panics (Inr x)"
  by (simp_all add: panics_def)

definition index_panic :: "string" where
  "index_panic = ''index out of range''"

definition slice_panic :: "string" where
  "slice_panic = ''slice bounds out of range''"

definition nil_panic :: "string" where
  "nil_panic = ''invalid memory address or nil pointer dereference''"

definition closed_panic :: "string" where
  "closed_panic = ''close of closed channel''"

section \<open>Go's int: 64 bits, two's complement\<close>

definition i64 :: "int \<Rightarrow> int" where
  "i64 x = signed_take_bit 63 x"

definition max_int :: "int" where
  "max_int = 2 ^ 63 - 1"

lemma i64_id [go_simps]: "- (2 ^ 63) \<le> x \<Longrightarrow> x < 2 ^ 63 \<Longrightarrow> i64 x = x"
  by (simp add: i64_def signed_take_bit_int_eq_self_iff)

lemma i64_bounds: "- (2 ^ 63) \<le> i64 x" "i64 x < 2 ^ 63"
  unfolding i64_def using signed_take_bit_int_greater_eq_minus_exp [of 63 x]
    signed_take_bit_int_less_exp [of 63 x] by simp_all

lemma i64_add_wrap:
  assumes "0 \<le> x" "x < 2 ^ 63" "0 \<le> y" "y < 2 ^ 63" "2 ^ 63 \<le> x + y"
  shows "i64 (x + y) = x + y - 2 ^ 64"
proof -
  have "i64 (x + y) = i64 (x + y - 2 ^ 64)"
    unfolding i64_def by (rule signed_take_bit_eq_iff_take_bit_eq [THEN iffD2])
      (simp add: take_bit_eq_mod mod_diff_right_eq flip: mod_diff_right_eq)
  also have "\<dots> = x + y - 2 ^ 64"
    using assms by (intro i64_id) auto
  finally show ?thesis .
qed

section \<open>Checked indexing and slicing\<close>

text \<open>
  Go's \<open>len\<close> is an \<open>int\<close>. The \<open>min\<close> matters only for lists that are longer than any
  Go slice; \<open>valid_slice\<close> says that a list can be one.
\<close>

definition len :: "'a list \<Rightarrow> int" where
  "len xs = min (int (length xs)) max_int"

definition valid_slice :: "'a list \<Rightarrow> bool" where
  "valid_slice xs \<longleftrightarrow> int (length xs) \<le> max_int"

lemma len_valid [go_simps]: "valid_slice xs \<Longrightarrow> len xs = int (length xs)"
  by (simp add: valid_slice_def len_def)

lemma len_bounds: "0 \<le> len xs" "len xs \<le> int (length xs)" "len xs < 2 ^ 63"
  by (simp_all add: len_def max_int_def)

definition index :: "'a list \<Rightarrow> int \<Rightarrow> 'a option" where
  "index xs i = (if 0 \<le> i \<and> i < int (length xs) then Some (xs ! nat i) else None)"

text \<open>
  \<open>xs[a:b]\<close>: it panics unless \<open>0 \<le> a \<le> b \<le> cap(xs)\<close>. Every use in the modelled code has
  checked \<open>b \<le> len(xs)\<close> or slices a string, so the capacity plays no part.
\<close>

definition subslice :: "'a list \<Rightarrow> int \<Rightarrow> int \<Rightarrow> 'a list option" where
  "subslice xs a b =
     (if 0 \<le> a \<and> a \<le> b \<and> b \<le> int (length xs)
      then Some (take (nat (b - a)) (drop (nat a) xs)) else None)"

definition slice_from :: "'a list \<Rightarrow> int \<Rightarrow> 'a list option" where
  "slice_from xs a = subslice xs a (len xs)"

definition slice_to :: "'a list \<Rightarrow> int \<Rightarrow> 'a list option" where
  "slice_to xs b = subslice xs 0 b"

lemma index_Some [go_simps]:
  "0 \<le> i \<Longrightarrow> i < int (length xs) \<Longrightarrow> index xs i = Some (xs ! nat i)"
  by (simp add: index_def)

lemma index_None [go_simps]:
  "i < 0 \<or> int (length xs) \<le> i \<Longrightarrow> index xs i = None"
  by (auto simp: index_def)

lemma index_eq_Some_iff:
  "index xs i = Some x \<longleftrightarrow> 0 \<le> i \<and> i < int (length xs) \<and> x = xs ! nat i"
  by (auto simp: index_def)

lemma index_append [simp]: "index (xs @ y # ys) (int (length xs)) = Some y"
  by (simp add: index_def nth_append)

lemma index_of_nat: "n < length xs \<Longrightarrow> index xs (int n) = Some (xs ! n)"
  by (simp add: index_def)

lemma subslice_append [simp]:
  "subslice (xs @ ys @ zs) (int (length xs)) (int (length xs) + int (length ys)) = Some ys"
  by (simp add: subslice_def)

lemma slice_from_append:
  "valid_slice (xs @ ys) \<Longrightarrow> slice_from (xs @ ys) (int (length xs)) = Some ys"
  by (simp add: slice_from_def subslice_def len_valid)

lemma subslice_eq_Some_iff:
  "subslice xs a b = Some ys \<longleftrightarrow>
     0 \<le> a \<and> a \<le> b \<and> b \<le> int (length xs) \<and> ys = take (nat (b - a)) (drop (nat a) xs)"
  by (auto simp: subslice_def)

lemma slice_from_SomeD:
  "slice_from xs i = Some ys \<Longrightarrow> 0 \<le> i \<and> i \<le> len xs \<and> int (length ys) = len xs - i"
  using len_bounds [of xs] by (auto simp: slice_from_def subslice_eq_Some_iff)

lemma slice_to_eq: "0 \<le> n \<Longrightarrow> n \<le> int (length xs) \<Longrightarrow> slice_to xs n = Some (take (nat n) xs)"
  by (simp add: slice_to_def subslice_def)

section \<open>Seven-bit groups of a word\<close>

lemma unat_drop_bit_7: "unat (drop_bit 7 v) = unat (v :: 'a::len word) div 128"
  unfolding unat_drop_bit_eq by (simp add: drop_bit_eq_div)

lemma drop_bit_7_less:
  assumes "128 \<le> (v :: u64)"
  shows "unat (drop_bit 7 v) < unat v"
proof -
  have "0 < unat v" using assms by (simp add: word_le_nat_alt)
  then show ?thesis by (simp add: unat_drop_bit_7)
qed

section \<open>Strings are byte sequences\<close>

definition byte_of_char :: "char \<Rightarrow> u8" where
  "byte_of_char c = of_nat (of_char c)"

definition char_of_byte :: "u8 \<Rightarrow> char" where
  "char_of_byte b = char_of (unat b)"

lemma char_of_byte_of_char [simp]: "char_of_byte (byte_of_char c) = c"
proof -
  have "(of_char c :: nat) < 256" by simp
  then have "unat (of_nat (of_char c) :: u8) = of_char c"
    by (simp add: unat_of_nat)
  then show ?thesis by (simp add: char_of_byte_def byte_of_char_def)
qed

definition string_of_bytes :: "bytes \<Rightarrow> string" where
  "string_of_bytes bs = map char_of_byte bs"

definition bytes_of_string :: "string \<Rightarrow> bytes" where
  "bytes_of_string s = map byte_of_char s"

lemma string_of_bytes_of_string [simp]: "string_of_bytes (bytes_of_string s) = s"
  by (simp add: string_of_bytes_def bytes_of_string_def map_idI)

lemma length_bytes_of_string [simp]: "length (bytes_of_string s) = length s"
  by (simp add: bytes_of_string_def)

end
