(* ===== verification/Varint.thy ===== *)
theory Varint
  imports Prelude
begin

text \<open>
  The wire-level routines of \<open>cluster/clusterpb/clusterpb.pb.go\<close>: the varint writer
  \<open>encodeVarintClusterpb\<close>, the two fixed-width writers, the size functions \<open>sovClusterpb\<close>
  and \<open>sozClusterpb\<close>, and the varint read loop that \<open>Unmarshal\<close> and \<open>skipClusterpb\<close>
  repeat at every field. Writers store into a caller's slice and panic past its end.
\<close>

section \<open>Stores into a byte slice\<close>

definition store :: "bytes \<Rightarrow> int \<Rightarrow> u8 \<Rightarrow> bytes option" where
  "store dAtA i b =
     (if 0 \<le> i \<and> i < int (length dAtA) then Some (dAtA[nat i := b]) else None)"

text \<open>A run of single-byte stores at consecutive offsets.\<close>

fun store_all :: "bytes \<Rightarrow> int \<Rightarrow> u8 list \<Rightarrow> (bytes \<times> int) option" where
  "store_all dAtA i [] = Some (dAtA, i)"
| "store_all dAtA i (b # bs) =
     (case store dAtA i b of None \<Rightarrow> None | Some d \<Rightarrow> store_all d (i + 1) bs)"

section \<open>Writers\<close>

function encodeVarintClusterpb :: "bytes \<Rightarrow> int \<Rightarrow> u64 \<Rightarrow> (bytes \<times> int) option" where
  "encodeVarintClusterpb dAtA offset v =
     (if v \<ge> 128 then
        (case store dAtA offset (ucast (v AND 0x7F OR 0x80)) of
           None \<Rightarrow> None
         | Some d \<Rightarrow> encodeVarintClusterpb d (offset + 1) (drop_bit 7 v))
      else
        (case store dAtA offset (ucast v) of
           None \<Rightarrow> None
         | Some d \<Rightarrow> Some (d, offset + 1)))"
  by pat_completeness auto
termination
  by (relation "measure (\<lambda>(d, off, v). unat v)") (auto simp: drop_bit_7_less)

definition encodeFixed64Clusterpb :: "bytes \<Rightarrow> int \<Rightarrow> u64 \<Rightarrow> (bytes \<times> int) option" where
  "encodeFixed64Clusterpb dAtA offset v =
     map_option (\<lambda>(d, _). (d, offset + 8))
       (store_all dAtA offset
         [ucast v, ucast (drop_bit 8 v), ucast (drop_bit 16 v), ucast (drop_bit 24 v),
          ucast (drop_bit 32 v), ucast (drop_bit 40 v), ucast (drop_bit 48 v),
          ucast (drop_bit 56 v)])"

definition encodeFixed32Clusterpb :: "bytes \<Rightarrow> int \<Rightarrow> u32 \<Rightarrow> (bytes \<times> int) option" where
  "encodeFixed32Clusterpb dAtA offset v =
     map_option (\<lambda>(d, _). (d, offset + 4))
       (store_all dAtA offset
         [ucast v, ucast (drop_bit 8 v), ucast (drop_bit 16 v), ucast (drop_bit 24 v)])"

section \<open>Sizes\<close>

text \<open>The loop counts once, then shifts, and stops when nothing is left.\<close>

function sovClusterpb :: "u64 \<Rightarrow> nat" where
  "sovClusterpb x =
     (let x' = drop_bit 7 x in if x' = 0 then 1 else Suc (sovClusterpb x'))"
  by pat_completeness auto
termination
proof (relation "measure unat")
  show "wf (measure (unat :: u64 \<Rightarrow> nat))" by simp
next
  fix x x' :: u64
  assume *: "x' = drop_bit 7 x" "x' \<noteq> 0"
  then have "0 < unat x'" by (simp add: unat_gt_0)
  moreover have "unat x' = unat x div 128"
    by (simp only: * unat_drop_bit_7)
  ultimately show "(x', x) \<in> measure unat" by simp
qed

definition sozClusterpb :: "u64 \<Rightarrow> nat" where
  "sozClusterpb x = sovClusterpb (push_bit 1 x XOR signed_drop_bit 63 x)"

declare encodeVarintClusterpb.simps [simp del] sovClusterpb.simps [simp del]

section \<open>Errors of the decoder\<close>

datatype pb_error =
    ErrIntOverflowClusterpb
  | ErrUnexpectedEOF
  | ErrInvalidLengthClusterpb
  | ErrEndGroup
  | ErrIllegalTag int u64
  | ErrWrongWireType int string
  | ErrIllegalWireType int

section \<open>The varint read loop\<close>

text \<open>
  \<open>for shift := uint(0); ; shift += 7 { ... }\<close> over the accumulator type of the field
  (\<open>uint64\<close>, \<open>uint32\<close>, or \<open>int\<close> read as a signed 64-bit word). The loop returns how it
  ended, the next index and the accumulator, which the code keeps on every exit.
\<close>

function varint_loop ::
  "bytes \<Rightarrow> int \<Rightarrow> nat \<Rightarrow> 'a::len word \<Rightarrow> pb_error fault option \<times> int \<times> 'a word" where
  "varint_loop dAtA iNdEx shift acc =
     (if shift \<ge> 64 then (Some (Error ErrIntOverflowClusterpb), iNdEx, acc)
      else if iNdEx \<ge> len dAtA then (Some (Error ErrUnexpectedEOF), iNdEx, acc)
      else
        (case index dAtA iNdEx of
           None \<Rightarrow> (Some (Panic index_panic), iNdEx, acc)
         | Some b \<Rightarrow>
             (let acc' = acc OR push_bit shift (ucast b AND 0x7F) in
              if b < 0x80 then (None, iNdEx + 1, acc')
              else varint_loop dAtA (iNdEx + 1) (shift + 7) acc')))"
  by pat_completeness auto
termination
  by (relation "measure (\<lambda>(d, i, shift, acc). 64 - shift)") auto

declare varint_loop.simps [simp del]

section \<open>The bytes of a varint\<close>

function varint_bytes :: "u64 \<Rightarrow> bytes" where
  "varint_bytes v =
     (if v \<ge> 128 then ucast (v AND 0x7F OR 0x80) # varint_bytes (drop_bit 7 v) else [ucast v])"
  by pat_completeness auto
termination
  by (relation "measure unat") (auto simp: drop_bit_7_less)

declare varint_bytes.simps [simp del]

lemma varint_bytes_not_Nil [simp]: "varint_bytes v \<noteq> []"
  by (subst varint_bytes.simps) simp

lemma drop_bit_7_eq_0_iff: "drop_bit 7 (v :: u64) = 0 \<longleftrightarrow> v < 128"
  by (simp add: unat_eq_zero [symmetric] unat_drop_bit_7 word_less_nat_alt div_eq_0_iff)

lemma length_varint_bytes: "length (varint_bytes v) = sovClusterpb v"
proof (induction v rule: varint_bytes.induct)
  case (1 v)
  then show ?case
    by (cases "128 \<le> v")
      (auto simp: varint_bytes.simps [of v] sovClusterpb.simps [of v] Let_def
        drop_bit_7_eq_0_iff not_less)
qed

lemma encodeVarint_eq_store_all:
  "encodeVarintClusterpb dAtA offset v = store_all dAtA offset (varint_bytes v)"
proof (induction dAtA offset v rule: encodeVarintClusterpb.induct)
  case (1 dAtA offset v)
  then show ?case
    by (cases "128 \<le> v")
      (auto simp: encodeVarintClusterpb.simps [of dAtA offset v] varint_bytes.simps [of v]
        split: option.splits)
qed

section \<open>Facts about runs of stores\<close>

lemma store_all_append:
  "store_all d i (xs @ ys) =
     (case store_all d i xs of None \<Rightarrow> None | Some (d', i') \<Rightarrow> store_all d' i' ys)"
  by (induction xs arbitrary: d i) (auto split: option.splits)

lemma store_all_fits:
  "0 \<le> i \<Longrightarrow> i + int (length bs) \<le> int (length d) \<Longrightarrow>
   store_all d i bs =
     Some (take (nat i) d @ bs @ drop (nat i + length bs) d, i + int (length bs))"
proof (induction bs arbitrary: d i)
  case Nil
  then show ?case by simp
next
  case (Cons b bs)
  let ?d = "d[nat i := b]"
  have lt: "nat i < length d" using Cons.prems by auto
  have "take (nat (i + 1)) ?d = take (nat i) d @ [b]"
    using lt Cons.prems by (simp add: nat_add_distrib take_Suc_conv_app_nth)
  moreover have "drop (nat (i + 1) + length bs) ?d = drop (nat i + length (b # bs)) d"
    using lt Cons.prems by (simp add: nat_add_distrib)
  moreover have "store_all ?d (i + 1) bs =
      Some (take (nat (i + 1)) ?d @ bs @ drop (nat (i + 1) + length bs) ?d,
        i + 1 + int (length bs))"
    using Cons.prems by (intro Cons.IH) auto
  ultimately show ?case
    using lt Cons.prems by (simp add: store_def)
qed

lemma store_all_overflows:
  "0 \<le> i \<Longrightarrow> bs \<noteq> [] \<Longrightarrow> int (length d) < i + int (length bs) \<Longrightarrow> store_all d i bs = None"
proof (induction bs arbitrary: d i)
  case (Cons b bs)
  show ?case
  proof (cases "i < int (length d)")
    case True
    then have "bs \<noteq> []" using Cons.prems by auto
    then have "store_all (d[nat i := b]) (i + 1) bs = None"
      using Cons.prems by (intro Cons.IH) auto
    then show ?thesis using True Cons.prems by (simp add: store_def)
  qed (simp add: store_def)
qed simp

section \<open>Reading back a varint\<close>

lemma and_127_eq_take_bit: "w AND 127 = take_bit 7 (w :: 'a::len word)"
  by (simp add: take_bit_eq_mask mask_eq_exp_minus_1)

lemma bit_128_iff: "bit (128 :: 'a::len word) n \<longleftrightarrow> n = 7 \<and> n < LENGTH('a)"
proof -
  have "(128 :: 'a word) = 2 ^ 7" by simp
  then have "bit (128 :: 'a word) n \<longleftrightarrow> bit (2 ^ 7 :: 'a word) n" by (rule arg_cong)
  then show ?thesis by (auto simp only: bit_exp_iff possible_bit_word)
qed

lemma low_group_bits:
  "ucast (ucast (v AND 127 OR 128 :: u64) :: u8) AND (127 :: 'a::len word)
     = ucast (take_bit 7 v)"
  unfolding and_127_eq_take_bit
  by (rule bit_word_eqI) (auto simp: bit_simps bit_128_iff simp del: bit_numeral_word_iff)

lemma take_bit_word_eq_self_nat:
  assumes "unat (v :: 'a::len word) < 2 ^ n"
  shows "take_bit n v = v"
  using assms by (intro word_unat_eq_iff [THEN iffD2])
    (simp add: unsigned_take_bit_eq take_bit_nat_eq_self_iff)

lemma take_bit_7_less:
  assumes "(v :: u64) < 128"
  shows "take_bit 7 v = v"
proof -
  have "unat v < 2 ^ 7" using assms by (simp add: word_less_nat_alt)
  then show ?thesis by (rule take_bit_word_eq_self_nat)
qed

lemma group_byte_big: "128 \<le> (ucast (v AND 127 OR 128 :: u64) :: u8)"
proof -
  have "bit (ucast (v AND 127 OR 128 :: u64) :: u8) 7"
    by (simp add: bit_simps bit_128_iff del: bit_numeral_word_iff)
  then have "(ucast (v AND 127 OR 128 :: u64) :: u8) AND 128 = 128"
    by (intro bit_word_eqI) (auto simp: bit_simps bit_128_iff simp del: bit_numeral_word_iff)
  then show ?thesis using word_and_le2 [of "ucast (v AND 127 OR 128) :: u8" 128] by simp
qed

lemma last_group_bits:
  assumes "(v :: u64) < 128"
  shows "ucast (ucast v :: u8) AND (127 :: 'a::len word) = ucast v"
proof -
  have "ucast (ucast v :: u8) AND (127 :: 'a::len word) = ucast (take_bit 7 v)"
    unfolding and_127_eq_take_bit by (rule bit_word_eqI) (auto simp: bit_simps)
  then show ?thesis by (simp only: take_bit_7_less [OF assms])
qed

lemma join_groups:
  "push_bit s (ucast (take_bit 7 (v :: u64)) :: 'a::len word)
     OR push_bit (s + 7) (ucast (drop_bit 7 v)) = push_bit s (ucast v)"
proof (rule bit_word_eqI)
  fix n
  assume "n < LENGTH('a)"
  moreover have "7 + (n - (s + 7)) = n - s" if "\<not> n - s < 7" using that by simp
  ultimately show "bit (push_bit s (ucast (take_bit 7 v) :: 'a word)
      OR push_bit (s + 7) (ucast (drop_bit 7 v))) n = bit (push_bit s (ucast v :: 'a word)) n"
    by (cases "n - s < 7") (auto simp: bit_simps)
qed

lemma varint_loop_last:
  assumes "shift < 64" "i < len dAtA" "index dAtA i = Some b" "b < 128"
  shows "varint_loop dAtA i shift (acc :: 'a::len word)
    = (None, i + 1, acc OR push_bit shift (ucast b AND 127))"
  using assms by (subst varint_loop.simps) (simp add: Let_def)

lemma varint_loop_more:
  assumes "shift < 64" "i < len dAtA" "index dAtA i = Some b" "\<not> b < 128"
  shows "varint_loop dAtA i shift (acc :: 'a::len word)
    = varint_loop dAtA (i + 1) (shift + 7) (acc OR push_bit shift (ucast b AND 127))"
  using assms by (subst varint_loop.simps) (simp add: Let_def)

lemma varint_loop_NoneD:
  assumes "varint_loop dAtA i shift (acc :: 'a::len word) = (None, j, v)"
  obtains b where "shift < 64" "index dAtA i = Some b" "0 \<le> i" "i < len dAtA"
  using assms by (subst (asm) varint_loop.simps) (auto simp: index_eq_Some_iff split: if_splits option.splits)

lemma varint_loop_encode:
  "shift < 64 \<Longrightarrow> valid_slice (pre @ varint_bytes v @ rest) \<Longrightarrow> unat v < 2 ^ (64 - shift) \<Longrightarrow>
   varint_loop (pre @ varint_bytes v @ rest) (int (length pre)) shift (acc :: 'a::len word)
     = (None, int (length pre) + int (sovClusterpb v), acc OR push_bit shift (ucast v))"
proof (induction v arbitrary: pre shift acc rule: varint_bytes.induct)
  case (1 v)
  show ?case
  proof (cases "128 \<le> v")
    case True
    let ?b = "ucast (v AND 127 OR 128) :: u8"
    have big: "\<not> ?b < 128"
      unfolding not_less by (rule group_byte_big)
    have "128 \<le> unat v" using True by (simp add: word_le_nat_alt)
    then have "(2::nat) ^ 7 < 2 ^ (64 - shift)" using "1.prems"(3) by simp
    then have "7 < 64 - shift" by (subst (asm) power_strict_increasing_iff) simp_all
    then have s: "shift + 7 < 64" by simp
    then have "64 - shift = 7 + (64 - (shift + 7))" by simp
    then have "(2::nat) ^ (64 - shift) = 2 ^ 7 * 2 ^ (64 - (shift + 7))"
      by (simp only: power_add)
    then have v': "unat (drop_bit 7 v) < 2 ^ (64 - (shift + 7))"
      using "1.prems"(3) by (simp add: unat_drop_bit_7 less_mult_imp_div_less mult.commute)
    have nv: "\<not> v < 128" using True by simp
    have valid: "valid_slice (pre @ ?b # varint_bytes (drop_bit 7 v) @ rest)"
      using "1.prems"(2) True by (simp add: varint_bytes.simps [of v])
    have "varint_loop (pre @ varint_bytes v @ rest) (int (length pre)) shift acc
        = varint_loop (pre @ ?b # varint_bytes (drop_bit 7 v) @ rest)
            (int (length pre) + 1) (shift + 7) (acc OR push_bit shift (ucast (take_bit 7 v)))"
      using True big "1.prems"(1) valid
      by (simp add: varint_bytes.simps [of v] varint_loop_more [where b = ?b] low_group_bits len_valid)
    also have "\<dots> = (None, int (length pre) + 1 + int (sovClusterpb (drop_bit 7 v)),
        acc OR push_bit shift (ucast v))"
      using "1.IH" [OF True s _ v', of "pre @ [?b]"
        "acc OR push_bit shift (ucast (take_bit 7 v))"] valid
      by (simp add: or.assoc join_groups add.commute)
    finally show ?thesis
      using nv by (simp add: sovClusterpb.simps [of v] Let_def drop_bit_7_eq_0_iff)
  next
    case False
    then have "v < 128" by simp
    moreover have "ucast v < (128 :: u8)"
      using \<open>v < 128\<close> by (simp add: word_less_nat_alt unsigned_ucast_eq take_bit_eq_mod)
    moreover have "valid_slice (pre @ ucast v # rest)"
      using "1.prems"(2) \<open>v < 128\<close> by (simp add: varint_bytes.simps [of v] split: if_splits)
    ultimately show ?thesis
      using "1.prems"(1)
      by (simp add: varint_bytes.simps [of v] len_valid sovClusterpb.simps [of v] Let_def
          varint_loop_last [where b = "ucast v"] drop_bit_7_eq_0_iff last_group_bits)
  qed
qed

lemma varint_loop_bounds:
  "varint_loop dAtA i shift (acc :: 'a::len word) = (None, j, v) \<Longrightarrow>
   0 \<le> i \<and> i < j \<and> j \<le> len dAtA \<and> shift < 64 \<and> 7 * (j - i) + int shift \<le> 70"
proof (induction dAtA i shift acc rule: varint_loop.induct)
  case (1 dAtA i shift acc)
  from "1.prems" obtain b where b: "shift < 64" "index dAtA i = Some b" "0 \<le> i" "i < len dAtA"
    by (rule varint_loop_NoneD)
  show ?case
  proof (cases "b < 128")
    case True
    with b "1.prems" show ?thesis by (auto simp: varint_loop_last)
  next
    case False
    with b "1.prems" have "varint_loop dAtA (i + 1) (shift + 7)
        (acc OR push_bit shift (ucast b AND 127)) = (None, j, v)"
      by (simp add: varint_loop_more)
    with b False "1.IH" have "i + 1 < j \<and> j \<le> len dAtA \<and>
        7 * (j - (i + 1)) + int (shift + 7) \<le> 70" by simp
    with b show ?thesis by simp
  qed
qed

text \<open>The loop panics only on a negative index: the code's checks cover the upper end.\<close>

lemma varint_loop_no_panic:
  "0 \<le> i \<Longrightarrow> varint_loop dAtA i shift (acc :: 'a::len word) = (Some f, j, v) \<Longrightarrow> \<exists>e. f = Error e"
proof (induction dAtA i shift acc rule: varint_loop.induct)
  case (1 dAtA i shift acc)
  then show ?case
    using len_bounds(2) [of dAtA]
    by (subst (asm) (2) varint_loop.simps)
      (auto simp: index_def Let_def split: if_splits option.splits)
qed

lemma varint_loop_negative:
  "i < 0 \<Longrightarrow> shift < 64 \<Longrightarrow>
   varint_loop dAtA i shift (acc :: 'a::len word) = (Some (Panic index_panic), i, acc)"
  using len_bounds(1) [of dAtA] by (subst varint_loop.simps) (simp add: index_def)

text \<open>Ten continuation bytes are refused with the overflow error, whatever follows.\<close>

lemma varint_loop_overflow:
  "(\<forall>b \<in> set bs. \<not> b < 0x80) \<Longrightarrow> valid_slice (pre @ bs @ rest) \<Longrightarrow> 64 \<le> shift + 7 * length bs \<Longrightarrow>
   fst (varint_loop (pre @ bs @ rest) (int (length pre)) shift (acc :: 'a::len word))
     = Some (Error ErrIntOverflowClusterpb)"
proof (induction bs arbitrary: pre shift acc)
  case Nil
  then show ?case by (subst varint_loop.simps) simp
next
  case (Cons b bs)
  show ?case
  proof (cases "64 \<le> shift")
    case True
    then show ?thesis by (subst varint_loop.simps) simp
  next
    case False
    have "fst (varint_loop ((pre @ [b]) @ bs @ rest) (int (length (pre @ [b]))) (shift + 7)
        (acc OR push_bit shift (ucast b AND 127))) = Some (Error ErrIntOverflowClusterpb)"
      using Cons.prems by (intro Cons.IH) auto
    then show ?thesis
      using False Cons.prems by (simp add: varint_loop_more [where b = b] add.commute len_valid)
  qed
qed

end
