(* ===== verification/Clusterpb.thy ===== *)
theory Clusterpb
  imports Varint
begin

text \<open>
  The message \<open>MemberStatus\<close> of \<open>cluster/clusterpb/clusterpb.pb.go\<close>, its states
  (\<open>member_status.go\<close>), and the encoder: \<open>Size\<close>, \<open>MarshalTo\<close>, \<open>Marshal\<close>. A Go string is
  its bytes; lengths are \<open>nat\<close> (a Go length is below \<open>2 ^ 63\<close>, the theorems that need
  the bound say so). The last section states what the encoder writes as one append-only
  function, \<open>encode\<close>, that the store-by-index code is shown to implement.
\<close>

section \<open>The message\<close>

record MemberStatus =
  Name :: string
  ID :: string
  Endpoint :: string
  IsLeader :: bool
  State :: string
  StateTxt :: string
  DBSize :: u64
  DBSizeTxt :: string
  Hash :: u32

definition empty_status :: MemberStatus where
  "empty_status = \<lparr>Name = [], ID = [], Endpoint = [], IsLeader = False, State = [],
     StateTxt = [], DBSize = 0, DBSizeTxt = [], Hash = 0\<rparr>"

text \<open>\<open>Reset\<close> overwrites the message with the zero value.\<close>

definition Reset :: "MemberStatus \<Rightarrow> MemberStatus" where
  "Reset m = empty_status"

definition StoppedMemberStatus :: string where
  "StoppedMemberStatus = ''Stopped''"

definition FollowerMemberStatus :: string where
  "FollowerMemberStatus = ''Follower''"

definition LeaderMemberStatus :: string where
  "LeaderMemberStatus = ''Leader''"

lemma member_states_distinct [simp]:
  "FollowerMemberStatus \<noteq> StoppedMemberStatus" "StoppedMemberStatus \<noteq> FollowerMemberStatus"
  "LeaderMemberStatus \<noteq> StoppedMemberStatus" "StoppedMemberStatus \<noteq> LeaderMemberStatus"
  "FollowerMemberStatus \<noteq> LeaderMemberStatus" "LeaderMemberStatus \<noteq> FollowerMemberStatus"
  by (simp_all add: StoppedMemberStatus_def FollowerMemberStatus_def LeaderMemberStatus_def)

section \<open>Size\<close>

definition string_size :: "string \<Rightarrow> nat" where
  "string_size s =
     (let l = length s in if l > 0 then 1 + l + sovClusterpb (of_nat l) else 0)"

definition Size :: "MemberStatus \<Rightarrow> nat" where
  "Size m = string_size (Name m) + string_size (ID m) + string_size (Endpoint m)
     + (if IsLeader m then 2 else 0)
     + string_size (State m) + string_size (StateTxt m)
     + (if DBSize m \<noteq> 0 then 1 + sovClusterpb (DBSize m) else 0)
     + string_size (DBSizeTxt m)
     + (if Hash m \<noteq> 0 then 1 + sovClusterpb (ucast (Hash m)) else 0)"

section \<open>MarshalTo and Marshal\<close>

text \<open>
  The writer's state is the slice and the index \<open>i\<close>; \<open>None\<close> is an index or slice panic.
  \<open>copy(dAtA[i:], s)\<close> copies as much as fits.
\<close>

type_synonym writer = "bytes \<times> int"

definition put_byte :: "u8 \<Rightarrow> writer \<Rightarrow> writer option" where
  "put_byte b w = (case w of (dAtA, i) \<Rightarrow> map_option (\<lambda>d. (d, i + 1)) (store dAtA i b))"

definition put_varint :: "u64 \<Rightarrow> writer \<Rightarrow> writer option" where
  "put_varint v w = (case w of (dAtA, i) \<Rightarrow> encodeVarintClusterpb dAtA i v)"

definition put_copy :: "string \<Rightarrow> writer \<Rightarrow> writer option" where
  "put_copy s w = (case w of (dAtA, i) \<Rightarrow>
     if 0 \<le> i \<and> i \<le> int (length dAtA) then
       let n = min (length dAtA - nat i) (length s)
       in Some (take (nat i) dAtA @ take n (bytes_of_string s) @ drop (nat i + n) dAtA, i + int n)
     else None)"

definition put_string_field :: "u8 \<Rightarrow> string \<Rightarrow> writer \<Rightarrow> writer option" where
  "put_string_field tag s w =
     (if length s > 0
      then Option.bind (put_byte tag w) (\<lambda>w.
           Option.bind (put_varint (of_nat (length s)) w) (put_copy s))
      else Some w)"

definition put_bool_field :: "u8 \<Rightarrow> bool \<Rightarrow> writer \<Rightarrow> writer option" where
  "put_bool_field tag b w =
     (if b then Option.bind (put_byte tag w) (put_byte (if b then 1 else 0)) else Some w)"

definition put_uint_field :: "u8 \<Rightarrow> u64 \<Rightarrow> writer \<Rightarrow> writer option" where
  "put_uint_field tag v w =
     (if v \<noteq> 0 then Option.bind (put_byte tag w) (put_varint v) else Some w)"

definition MarshalTo :: "MemberStatus \<Rightarrow> bytes \<Rightarrow> writer option" where
  "MarshalTo m dAtA =
     Option.bind (put_string_field 0x0a (Name m) (dAtA, 0)) (\<lambda>w.
     Option.bind (put_string_field 0x12 (ID m) w) (\<lambda>w.
     Option.bind (put_string_field 0x1a (Endpoint m) w) (\<lambda>w.
     Option.bind (put_bool_field 0x20 (IsLeader m) w) (\<lambda>w.
     Option.bind (put_string_field 0x2a (State m) w) (\<lambda>w.
     Option.bind (put_string_field 0x32 (StateTxt m) w) (\<lambda>w.
     Option.bind (put_uint_field 0x38 (DBSize m) w) (\<lambda>w.
     Option.bind (put_string_field 0x42 (DBSizeTxt m) w) (\<lambda>w.
     put_uint_field 0x48 (ucast (Hash m)) w))))))))"

definition Marshal :: "MemberStatus \<Rightarrow> (pb_error, bytes) result" where
  "Marshal m =
     (case MarshalTo m (replicate (Size m) 0) of
        None \<Rightarrow> Inl (Panic index_panic)
      | Some (dAtA, n) \<Rightarrow>
          (case slice_to dAtA n of None \<Rightarrow> Inl (Panic slice_panic) | Some bs \<Rightarrow> Inr bs))"

section \<open>What the encoder writes\<close>

definition string_bytes :: "string \<Rightarrow> bytes" where
  "string_bytes s = varint_bytes (of_nat (length s)) @ bytes_of_string s"

definition string_field :: "u8 \<Rightarrow> string \<Rightarrow> bytes" where
  "string_field tag s = (if s = [] then [] else tag # string_bytes s)"

definition bool_field :: "u8 \<Rightarrow> bool \<Rightarrow> bytes" where
  "bool_field tag b = (if b then [tag, 1] else [])"

definition uint_field :: "u8 \<Rightarrow> u64 \<Rightarrow> bytes" where
  "uint_field tag v = (if v = 0 then [] else tag # varint_bytes v)"

definition encode :: "MemberStatus \<Rightarrow> bytes" where
  "encode m = string_field 0x0a (Name m) @ string_field 0x12 (ID m)
     @ string_field 0x1a (Endpoint m) @ bool_field 0x20 (IsLeader m)
     @ string_field 0x2a (State m) @ string_field 0x32 (StateTxt m)
     @ uint_field 0x38 (DBSize m) @ string_field 0x42 (DBSizeTxt m)
     @ uint_field 0x48 (ucast (Hash m))"

lemma length_string_field: "length (string_field tag s) = string_size s"
  by (simp add: string_field_def string_size_def string_bytes_def length_varint_bytes Let_def)

lemma length_uint_field:
  "length (uint_field tag v) = (if v \<noteq> 0 then 1 + sovClusterpb v else 0)"
  by (simp add: uint_field_def length_varint_bytes)

lemma ucast_u32_eq_0_iff [simp]: "(ucast (h :: u32) :: u64) = 0 \<longleftrightarrow> h = 0"
proof -
  have "take_bit 64 (unat h) = unat h"
    using unsigned_less [of h, where 'a = nat] by (simp add: take_bit_nat_eq_self_iff)
  then show ?thesis
    by (simp flip: unat_eq_zero add: unsigned_ucast_eq)
qed

lemma length_encode: "length (encode m) = Size m"
  by (simp add: encode_def Size_def length_string_field length_uint_field bool_field_def)

text \<open>A writer step that appends \<open>bs\<close> wherever they fit.\<close>

definition writes :: "(writer \<Rightarrow> writer option) \<Rightarrow> bytes \<Rightarrow> bool" where
  "writes f bs \<longleftrightarrow> (\<forall>d i. 0 \<le> i \<and> i + int (length bs) \<le> int (length d)
     \<longrightarrow> f (d, i) = store_all d i bs)"

lemma writesD:
  "writes f bs \<Longrightarrow> 0 \<le> i \<Longrightarrow> i + int (length bs) \<le> int (length d) \<Longrightarrow> f (d, i) = store_all d i bs"
  by (simp add: writes_def)

lemma length_store_all: "store_all d i bs = Some (d', j) \<Longrightarrow> length d' = length d"
  by (induction bs arbitrary: d i) (auto simp: store_def split: option.splits if_splits)

lemma writes_bind:
  assumes "writes f xs" "writes g ys"
  shows "writes (\<lambda>w. Option.bind (f w) g) (xs @ ys)"
  unfolding writes_def
proof (intro allI impI)
  fix d :: bytes and i :: int
  assume a: "0 \<le> i \<and> i + int (length (xs @ ys)) \<le> int (length d)"
  then have f: "f (d, i) = store_all d i xs" by (intro writesD [OF assms(1)]) auto
  obtain d' where d': "store_all d i xs = Some (d', i + int (length xs))"
    using a store_all_fits [of i xs d] by auto
  then have "length d' = length d" by (rule length_store_all)
  with a have "g (d', i + int (length xs)) = store_all d' (i + int (length xs)) ys"
    by (intro writesD [OF assms(2)]) auto
  then show "Option.bind (f (d, i)) g = store_all d i (xs @ ys)"
    by (simp add: f d' store_all_append)
qed

lemma writes_Nil: "writes Some []"
  by (simp add: writes_def)

lemma writes_put_byte: "writes (put_byte b) [b]"
  by (auto simp: writes_def put_byte_def split: option.splits)

lemma writes_put_varint: "writes (put_varint v) (varint_bytes v)"
  by (simp add: writes_def put_varint_def encodeVarint_eq_store_all)

lemma writes_put_copy: "writes (put_copy s) (bytes_of_string s)"
  by (auto simp: writes_def put_copy_def store_all_fits Let_def min_def nat_le_iff)

lemma writes_string_field: "writes (put_string_field tag s) (string_field tag s)"
proof (cases "s = []")
  case True
  then show ?thesis using writes_Nil by (simp add: put_string_field_def string_field_def writes_def)
next
  case False
  have "writes (\<lambda>w. Option.bind (put_byte tag w) (\<lambda>w.
      Option.bind (put_varint (of_nat (length s)) w) (put_copy s)))
      ([tag] @ varint_bytes (of_nat (length s)) @ bytes_of_string s)"
    by (intro writes_bind writes_put_byte writes_put_varint writes_put_copy)
  then show ?thesis
    using False by (simp add: put_string_field_def string_field_def string_bytes_def writes_def)
qed

lemma writes_bool_field: "writes (put_bool_field tag b) (bool_field tag b)"
proof (cases b)
  case True
  have "writes (\<lambda>w. Option.bind (put_byte tag w) (put_byte 1)) ([tag] @ [1])"
    by (intro writes_bind writes_put_byte)
  then show ?thesis using True by (simp add: put_bool_field_def bool_field_def writes_def)
qed (use writes_Nil in \<open>simp add: put_bool_field_def bool_field_def writes_def\<close>)

lemma writes_uint_field: "writes (put_uint_field tag v) (uint_field tag v)"
proof (cases "v = 0")
  case False
  have "writes (\<lambda>w. Option.bind (put_byte tag w) (put_varint v)) ([tag] @ varint_bytes v)"
    by (intro writes_bind writes_put_byte writes_put_varint)
  then show ?thesis using False by (simp add: put_uint_field_def uint_field_def writes_def)
qed (use writes_Nil in \<open>simp add: put_uint_field_def uint_field_def writes_def\<close>)

lemma MarshalTo_fits:
  assumes "Size m \<le> length dAtA"
  shows "MarshalTo m dAtA = Some (encode m @ drop (Size m) dAtA, int (Size m))"
proof -
  have "writes (\<lambda>w. Option.bind (put_string_field 0x0a (Name m) w) (\<lambda>w.
      Option.bind (put_string_field 0x12 (ID m) w) (\<lambda>w.
      Option.bind (put_string_field 0x1a (Endpoint m) w) (\<lambda>w.
      Option.bind (put_bool_field 0x20 (IsLeader m) w) (\<lambda>w.
      Option.bind (put_string_field 0x2a (State m) w) (\<lambda>w.
      Option.bind (put_string_field 0x32 (StateTxt m) w) (\<lambda>w.
      Option.bind (put_uint_field 0x38 (DBSize m) w) (\<lambda>w.
      Option.bind (put_string_field 0x42 (DBSizeTxt m) w)
      (put_uint_field 0x48 (ucast (Hash m)))))))))))
      (encode m)"
    unfolding encode_def
    by (intro writes_bind writes_string_field writes_bool_field writes_uint_field)
  from writesD [OF this, of 0 dAtA] show ?thesis
    using assms by (simp add: MarshalTo_def length_encode store_all_fits)
qed

lemma Marshal_eq_encode: "Marshal m = Inr (encode m)"
  by (simp add: Marshal_def MarshalTo_fits slice_to_eq length_encode [symmetric])

end
