(* ===== verification/ClusterpbDecode.thy ===== *)
theory ClusterpbDecode
  imports Clusterpb
begin

text \<open>
  The decoder of \<open>cluster/clusterpb/clusterpb.pb.go\<close>: \<open>skipClusterpb\<close>, which finds the end
  of an unknown field, and \<open>Unmarshal\<close>, which merges the fields it reads into the message
  it is called on. Additions to an index that the code does not bound are 64-bit
  additions (\<open>i64\<close>). On an error the message keeps the fields read so far, as in Go.
\<close>

section \<open>skipClusterpb\<close>

text \<open>The loop of wire type 0: it consumes a varint and drops its value.\<close>

function skip_varint :: "bytes \<Rightarrow> int \<Rightarrow> nat \<Rightarrow> (pb_error, int) result" where
  "skip_varint dAtA iNdEx shift =
     (if shift \<ge> 64 then Inl (Error ErrIntOverflowClusterpb)
      else if iNdEx \<ge> len dAtA then Inl (Error ErrUnexpectedEOF)
      else
        (case index dAtA iNdEx of
           None \<Rightarrow> Inl (Panic index_panic)
         | Some b \<Rightarrow>
             if b < 0x80 then Inr (iNdEx + 1) else skip_varint dAtA (iNdEx + 1) (shift + 7)))"
  by pat_completeness auto
termination
  by (relation "measure (\<lambda>(d, i, shift). 64 - shift)") auto

declare skip_varint.simps [simp del]

text \<open>Wire type 2: the length is an \<open>int\<close>, added to the index before its sign is checked.\<close>

definition skip_bytes :: "bytes \<Rightarrow> int \<Rightarrow> (pb_error, int) result" where
  "skip_bytes dAtA iNdEx =
     (case varint_loop dAtA iNdEx 0 (0 :: u64) of
        (Some f, _, _) \<Rightarrow> Inl f
      | (None, i, n) \<Rightarrow>
          let iNdEx = i64 (i + sint n) in
          if sint n < 0 then Inl (Error ErrInvalidLengthClusterpb) else Inr iNdEx)"

text \<open>
  \<open>skip_group\<close> is the loop of wire type 3, which calls \<open>skipClusterpb\<close> on the rest of the
  slice for each nested field.
\<close>

function skipClusterpb :: "bytes \<Rightarrow> (pb_error, int) result"
  and skip_group :: "bytes \<Rightarrow> int \<Rightarrow> (pb_error, int) result" where
  "skipClusterpb dAtA =
     (if 0 < len dAtA then
        (case varint_loop dAtA 0 0 (0 :: u64) of
           (Some f, _, _) \<Rightarrow> Inl f
         | (None, iNdEx, wire) \<Rightarrow>
             (let wireType = uint (wire AND 0x7) in
              if wireType = 0 then skip_varint dAtA iNdEx 0
              else if wireType = 1 then Inr (i64 (iNdEx + 8))
              else if wireType = 2 then skip_bytes dAtA iNdEx
              else if wireType = 3 then skip_group dAtA iNdEx
              else if wireType = 4 then Inr iNdEx
              else if wireType = 5 then Inr (i64 (iNdEx + 4))
              else Inl (Error (ErrIllegalWireType wireType))))
      else Inl (Panic ''unreachable''))"
| "skip_group dAtA iNdEx =
     (case varint_loop dAtA iNdEx 0 (0 :: u64) of
        (Some f, _, _) \<Rightarrow> Inl f
      | (None, i, innerWire) \<Rightarrow>
          (if uint (innerWire AND 0x7) = 4 then Inr i
           else
             (case slice_from dAtA iNdEx of
                None \<Rightarrow> Inl (Panic slice_panic)
              | Some rest \<Rightarrow>
                  (case skipClusterpb rest of
                     Inl f \<Rightarrow> Inl f
                   | Inr n \<Rightarrow> skip_group dAtA (i64 (iNdEx + n))))))"
  by pat_completeness auto

text \<open>
  Progress: a skip returns a positive count, or one that wrapped below zero so far that
  adding it to any index of the slice stays negative.
\<close>

definition skip_count :: "bytes \<Rightarrow> int \<Rightarrow> bool" where
  "skip_count dAtA n \<longleftrightarrow>
     0 < n \<and> n < 2 ^ 63 \<or> n < 0 \<and> - (2 ^ 63) \<le> n \<and> n + 2 ^ 63 \<le> len dAtA"

lemma skip_count_add:
  assumes "0 < i" "i \<le> len dAtA" "0 \<le> n" "n < 2 ^ 63"
  shows "skip_count dAtA (i64 (i + n))"
proof (cases "i + n < 2 ^ 63")
  case True
  then show ?thesis using assms by (simp add: skip_count_def i64_id)
next
  case False
  then have "i64 (i + n) = i + n - 2 ^ 64"
    using assms len_bounds(3) [of dAtA] by (intro i64_add_wrap) auto
  then show ?thesis
    using assms False len_bounds(3) [of dAtA] by (auto simp: skip_count_def)
qed

lemma skip_varint_bounds:
  "skip_varint dAtA i shift = Inr n \<Longrightarrow> 0 \<le> i \<and> i < n \<and> n \<le> len dAtA"
proof (induction dAtA i shift rule: skip_varint.induct)
  case (1 dAtA i shift)
  from "1.prems" obtain b where b: "shift < 64" "index dAtA i = Some b" "0 \<le> i" "i < len dAtA"
    by (subst (asm) skip_varint.simps) (auto simp: index_eq_Some_iff split: if_splits option.splits)
  then have step: "skip_varint dAtA i shift
      = (if b < 128 then Inr (i + 1) else skip_varint dAtA (i + 1) (shift + 7))"
    by (subst skip_varint.simps) simp
  show ?case
    using "1.prems" "1.IH" [OF _ _ b(2)] b by (auto simp: step split: if_splits)
qed

lemma skip_bytes_count: "skip_bytes dAtA i = Inr n \<Longrightarrow> 0 \<le> i \<and> skip_count dAtA n"
  using sint_lt [where 'a = 64]
  by (auto simp: skip_bytes_def Let_def split: prod.splits option.splits if_splits
      dest!: varint_loop_bounds intro!: skip_count_add)

lemma skip_count_pos: "0 < n \<Longrightarrow> n \<le> len d \<Longrightarrow> skip_count d n"
  using len_bounds(3) [of d] by (simp add: skip_count_def)

lemma skip_progress_dom:
  "skipClusterpb_skip_group_dom (Inl d) \<Longrightarrow> skipClusterpb d = Inr n \<Longrightarrow> skip_count d n"
  "skipClusterpb_skip_group_dom (Inr (d, i)) \<Longrightarrow> skip_group d i = Inr m \<Longrightarrow> 0 < m \<and> m \<le> len d"
proof (induction d and d i arbitrary: n and m rule: skipClusterpb_skip_group.pinduct)
  case (1 d)
  obtain f j w where v: "varint_loop d 0 0 (0 :: u64) = (f, j, w)" by (rule prod_cases3)
  note unfold = skipClusterpb.psimps [OF "1.hyps"] v Let_def
  have l: "0 < len d" and f: "f = None"
    using "1.prems" by (auto simp: unfold split: if_splits option.splits)
  have j: "0 < j" "j \<le> len d" using varint_loop_bounds v f by fastforce+
  note IH = "1.IH" [OF l v [symmetric] f refl refl]
  show ?case
    using "1.prems" l j IH
    by (auto simp: unfold f skip_count_pos skip_count_add split: if_splits
        dest!: skip_varint_bounds skip_bytes_count)
next
  case (2 d i)
  obtain f j w where v: "varint_loop d i 0 (0 :: u64) = (f, j, w)" by (rule prod_cases3)
  note unfold = skip_group.psimps [OF "2.hyps"] v
  have f: "f = None" using "2.prems" by (auto simp: unfold split: option.splits)
  have j: "0 < j" "j \<le> len d" using varint_loop_bounds v f by fastforce+
  show ?case
    using "2.prems" j "2.IH"(2) [OF v [symmetric] f refl]
    by (auto simp: unfold f split: if_splits option.splits sum.splits)
qed

lemma skip_next_index:
  assumes "slice_from d i = Some rest" "skip_count rest n"
  shows "i64 (i + n) < 0 \<or> i < i64 (i + n)"
proof (cases "0 < n \<and> 2 ^ 63 \<le> i + n")
  case True
  then have "i64 (i + n) = i + n - 2 ^ 64"
    using slice_from_SomeD [OF assms(1)] assms(2) len_bounds(3) [of d]
    by (intro i64_add_wrap) (auto simp: skip_count_def)
  then show ?thesis
    using slice_from_SomeD [OF assms(1)] assms(2) len_bounds(3) [of d] by (auto simp: skip_count_def)
next
  case False
  then have "i64 (i + n) = i + n"
    using slice_from_SomeD [OF assms(1)] assms(2) len_bounds [of d] len_bounds [of rest]
    by (intro i64_id) (auto simp: skip_count_def)
  then show ?thesis
    using slice_from_SomeD [OF assms(1)] assms(2) len_bounds [of d] len_bounds [of rest]
    by (auto simp: skip_count_def)
qed

lemma skip_dom: "All skipClusterpb_skip_group_dom"
proof (relation "measures
    [\<lambda>x. case x of Inl d \<Rightarrow> length d | Inr (d, i) \<Rightarrow> if i < 0 then 0 else length d - nat i,
     \<lambda>x. case x of Inl _ \<Rightarrow> 0 | Inr _ \<Rightarrow> 1]", goal_cases)
  case 1
  show ?case by simp
next
  case (2 d f y j w t)
  then have "varint_loop d 0 0 (0 :: u64) = (None, j, w)" by simp
  from varint_loop_bounds [OF this] show ?case using len_bounds [of d] by auto
next
  case (3 d i f y j w rest)
  then have "0 \<le> i" by (auto dest: slice_from_SomeD)
  with 3 show ?case using slice_from_SomeD [of d i rest] len_bounds [of d] by auto
next
  case (4 d i f y j w rest n)
  then have "varint_loop d i 0 (0 :: u64) = (None, j, w)" by simp
  from varint_loop_bounds [OF this] have "0 \<le> i" "i < len d" by auto
  moreover have "i64 (i + n) < 0 \<or> i < i64 (i + n)"
    using 4(5) skip_progress_dom(1) [OF 4(7,6)] by (rule skip_next_index)
  ultimately show ?case using len_bounds [of d] by auto
qed

termination skipClusterpb
  by (rule skip_dom)

declare skipClusterpb.simps [simp del] skip_group.simps [simp del]

lemma skip_progress: "skipClusterpb d = Inr n \<Longrightarrow> skip_count d n"
  by (rule skip_progress_dom(1) [OF skip_dom [THEN spec]])

section \<open>Unmarshal\<close>

text \<open>
  Reading a length-delimited string: the varint, the sign check of the length, the end
  check on the 64-bit sum, then the slice.
\<close>

definition read_string :: "bytes \<Rightarrow> int \<Rightarrow> (pb_error, string \<times> int) result" where
  "read_string dAtA i =
     (case varint_loop dAtA i 0 (0 :: u64) of
        (Some f, _, _) \<Rightarrow> Inl f
      | (None, iNdEx, stringLen) \<Rightarrow>
          (let intStringLen = sint stringLen in
           if intStringLen < 0 then Inl (Error ErrInvalidLengthClusterpb)
           else
             (let postIndex = i64 (iNdEx + intStringLen) in
              if postIndex > len dAtA then Inl (Error ErrUnexpectedEOF)
              else
                (case subslice dAtA iNdEx postIndex of
                   None \<Rightarrow> Inl (Panic slice_panic)
                 | Some bs \<Rightarrow> Inr (string_of_bytes bs, postIndex)))))"

text \<open>
  One step of the message loop ends with how it went, the next index, and the message.
\<close>

type_synonym step = "pb_error fault option \<times> int \<times> MemberStatus"

definition string_case ::
  "bytes \<Rightarrow> int \<Rightarrow> int \<Rightarrow> string \<Rightarrow> (string \<Rightarrow> MemberStatus \<Rightarrow> MemberStatus)
     \<Rightarrow> MemberStatus \<Rightarrow> step" where
  "string_case dAtA i wireType field set_field m =
     (if wireType \<noteq> 2 then (Some (Error (ErrWrongWireType wireType field)), i, m)
      else
        (case read_string dAtA i of
           Inl f \<Rightarrow> (Some f, i, m)
         | Inr (s, j) \<Rightarrow> (None, j, set_field s m)))"

text \<open>\<open>IsLeader\<close> is read through an \<open>int\<close> variable, so an error leaves it as it was.\<close>

definition bool_case ::
  "bytes \<Rightarrow> int \<Rightarrow> int \<Rightarrow> string \<Rightarrow> (bool \<Rightarrow> MemberStatus \<Rightarrow> MemberStatus)
     \<Rightarrow> MemberStatus \<Rightarrow> step" where
  "bool_case dAtA i wireType field set_field m =
     (if wireType \<noteq> 0 then (Some (Error (ErrWrongWireType wireType field)), i, m)
      else
        (case varint_loop dAtA i 0 (0 :: u64) of
           (Some f, j, _) \<Rightarrow> (Some f, j, m)
         | (None, j, v) \<Rightarrow> (None, j, set_field (v \<noteq> 0) m)))"

text \<open>\<open>DBSize\<close> and \<open>Hash\<close> are cleared and then accumulated in the message itself.\<close>

definition uint_case ::
  "bytes \<Rightarrow> int \<Rightarrow> int \<Rightarrow> string \<Rightarrow> ('a::len word \<Rightarrow> MemberStatus \<Rightarrow> MemberStatus)
     \<Rightarrow> MemberStatus \<Rightarrow> step" where
  "uint_case dAtA i wireType field set_field m =
     (if wireType \<noteq> 0 then (Some (Error (ErrWrongWireType wireType field)), i, m)
      else
        (case varint_loop dAtA i 0 (0 :: 'a word) of
           (stop, j, v) \<Rightarrow> (stop, j, set_field v m)))"

definition unknown_case :: "bytes \<Rightarrow> int \<Rightarrow> MemberStatus \<Rightarrow> step" where
  "unknown_case dAtA preIndex m =
     (case slice_from dAtA preIndex of
        None \<Rightarrow> (Some (Panic slice_panic), preIndex, m)
      | Some rest \<Rightarrow>
          (case skipClusterpb rest of
             Inl f \<Rightarrow> (Some f, preIndex, m)
           | Inr skippy \<Rightarrow>
               (if skippy < 0 then (Some (Error ErrInvalidLengthClusterpb), preIndex, m)
                else if i64 (preIndex + skippy) > len dAtA
                then (Some (Error ErrUnexpectedEOF), preIndex, m)
                else (None, i64 (preIndex + skippy), m))))"

definition unmarshal_field ::
  "bytes \<Rightarrow> int \<Rightarrow> int \<Rightarrow> int \<Rightarrow> int \<Rightarrow> MemberStatus \<Rightarrow> step" where
  "unmarshal_field dAtA preIndex iNdEx fieldNum wireType m =
     (if fieldNum = 1 then string_case dAtA iNdEx wireType ''Name'' (\<lambda>s m. m\<lparr>Name := s\<rparr>) m
      else if fieldNum = 2 then string_case dAtA iNdEx wireType ''ID'' (\<lambda>s m. m\<lparr>ID := s\<rparr>) m
      else if fieldNum = 3
      then string_case dAtA iNdEx wireType ''Endpoint'' (\<lambda>s m. m\<lparr>Endpoint := s\<rparr>) m
      else if fieldNum = 4
      then bool_case dAtA iNdEx wireType ''IsLeader'' (\<lambda>b m. m\<lparr>IsLeader := b\<rparr>) m
      else if fieldNum = 5 then string_case dAtA iNdEx wireType ''State'' (\<lambda>s m. m\<lparr>State := s\<rparr>) m
      else if fieldNum = 6
      then string_case dAtA iNdEx wireType ''StateTxt'' (\<lambda>s m. m\<lparr>StateTxt := s\<rparr>) m
      else if fieldNum = 7
      then uint_case dAtA iNdEx wireType ''DBSize'' (\<lambda>v m. m\<lparr>DBSize := v\<rparr>) m
      else if fieldNum = 8
      then string_case dAtA iNdEx wireType ''DBSizeTxt'' (\<lambda>s m. m\<lparr>DBSizeTxt := s\<rparr>) m
      else if fieldNum = 9 then uint_case dAtA iNdEx wireType ''Hash'' (\<lambda>v m. m\<lparr>Hash := v\<rparr>) m
      else unknown_case dAtA preIndex m)"

text \<open>The tag: \<open>int32(wire >> 3)\<close> is the field number, the low three bits the wire type.\<close>

definition unmarshal_step :: "bytes \<Rightarrow> int \<Rightarrow> MemberStatus \<Rightarrow> step" where
  "unmarshal_step dAtA preIndex m =
     (case varint_loop dAtA preIndex 0 (0 :: u64) of
        (Some f, j, _) \<Rightarrow> (Some f, j, m)
      | (None, iNdEx, wire) \<Rightarrow>
          (let fieldNum = sint (ucast (drop_bit 3 wire) :: u32);
               wireType = uint (wire AND 0x7) in
           if wireType = 4 then (Some (Error ErrEndGroup), iNdEx, m)
           else if fieldNum \<le> 0 then (Some (Error (ErrIllegalTag fieldNum wire)), iNdEx, m)
           else unmarshal_field dAtA preIndex iNdEx fieldNum wireType m))"

lemma read_string_index:
  assumes "read_string d i = Inr (s, j)"
  shows "i < j \<and> j \<le> len d"
proof -
  obtain k n where v: "varint_loop d i 0 (0 :: u64) = (None, k, n)"
    using assms by (auto simp: read_string_def split: prod.splits option.splits)
  from varint_loop_bounds [OF v] v assms show ?thesis
    by (auto simp: read_string_def Let_def subslice_eq_Some_iff split: if_splits option.splits)
qed

lemma unmarshal_step_progress:
  assumes "unmarshal_step d i m = (None, j, m')"
  shows "0 \<le> i \<and> (j < 0 \<or> i < j)"
proof -
  obtain k wire where v: "varint_loop d i 0 (0 :: u64) = (None, k, wire)"
    using assms by (auto simp: unmarshal_step_def split: prod.splits option.splits)
  note b = varint_loop_bounds [OF v]
  have unknown: "j < 0 \<or> i < j" if "unknown_case d i m = (None, j, m')"
    using that by (auto simp: unknown_case_def split: option.splits sum.splits if_splits
        dest!: skip_progress dest: skip_next_index)
  have field: "j < 0 \<or> i < j" if "unmarshal_field d i k fn wt m = (None, j, m')" for fn wt
    using that b unknown
    by (auto simp: unmarshal_field_def string_case_def bool_case_def uint_case_def
        split: if_splits sum.splits prod.splits option.splits
        dest!: read_string_index varint_loop_bounds)
  show ?thesis
    using assms b field by (auto simp: unmarshal_step_def v Let_def split: if_splits)
qed

function unmarshal_loop :: "bytes \<Rightarrow> int \<Rightarrow> MemberStatus \<Rightarrow> pb_error fault option \<times> MemberStatus"
  where
  "unmarshal_loop dAtA iNdEx m =
     (if iNdEx < len dAtA then
        (case unmarshal_step dAtA iNdEx m of
           (Some f, _, m') \<Rightarrow> (Some f, m')
         | (None, j, m') \<Rightarrow> unmarshal_loop dAtA j m')
      else if iNdEx > len dAtA then (Some (Error ErrUnexpectedEOF), m)
      else (None, m))"
  by pat_completeness auto
termination
  by (relation "measure (\<lambda>(d, i, m). if i < 0 then 0 else Suc (nat (len d - i)))")
    (auto dest!: unmarshal_step_progress [OF sym])

declare unmarshal_loop.simps [simp del]

definition Unmarshal :: "bytes \<Rightarrow> MemberStatus \<Rightarrow> pb_error fault option \<times> MemberStatus" where
  "Unmarshal dAtA m = unmarshal_loop dAtA 0 m"

end
