(* ===== verification/ClusterpbRoundtrip.thy ===== *)
theory ClusterpbRoundtrip
  imports ClusterpbDecode
begin

text \<open>
  Encoder and decoder of \<open>MemberStatus\<close> against each other. The interface between them is
  the locale \<open>wire_codec\<close>: a value is put as bytes, and getting it from wherever those
  bytes stand gives the value and the index after them. It is interpreted on the string,
  \<open>uint64\<close>, \<open>uint32\<close> and \<open>bool\<close> encodings of the code.
\<close>

section \<open>The interface\<close>

locale wire_codec =
  fixes put :: "'v \<Rightarrow> bytes"
    and get :: "bytes \<Rightarrow> int \<Rightarrow> (pb_error, 'v \<times> int) result"
  assumes put_get: "valid_slice (pre @ put v @ rest) \<Longrightarrow>
    get (pre @ put v @ rest) (int (length pre)) = Inr (v, int (length pre) + int (length (put v)))"
begin

lemma get_after_tag:
  assumes "valid_slice (pre @ t # put v @ rest)"
  shows "get (pre @ t # put v @ rest) (int (length pre) + 1)
    = Inr (v, int (length pre) + int (length (t # put v)))"
  using put_get [of "pre @ [t]" v rest] assms by (simp add: add.assoc add.commute)

text \<open>No encoding is a prefix of another: bytes determine the value and where it ends.\<close>

lemma prefix_free:
  assumes "put v @ r = put w @ r'" and "valid_slice (put v @ r)"
  shows "v = w \<and> r = r'"
proof -
  have "get (put v @ r) 0 = Inr (v, int (length (put v)))"
    using put_get [of "[]" v r] assms(2) by simp
  moreover have "get (put v @ r) 0 = Inr (w, int (length (put w)))"
    using put_get [of "[]" w r'] assms by simp
  ultimately have "v = w" by simp
  then show ?thesis using assms(1) by simp
qed

end

section \<open>The encodings of the code\<close>

definition read_uint :: "bytes \<Rightarrow> int \<Rightarrow> (pb_error, 'a::len word \<times> int) result" where
  "read_uint dAtA i =
     (case varint_loop dAtA i 0 (0 :: 'a word) of
        (Some f, _, _) \<Rightarrow> Inl f
      | (None, j, v) \<Rightarrow> Inr (v, j))"

definition read_bool :: "bytes \<Rightarrow> int \<Rightarrow> (pb_error, bool \<times> int) result" where
  "read_bool dAtA i =
     (case varint_loop dAtA i 0 (0 :: u64) of
        (Some f, _, _) \<Rightarrow> Inl f
      | (None, j, v) \<Rightarrow> Inr (v \<noteq> 0, j))"

definition bool_bytes :: "bool \<Rightarrow> bytes" where
  "bool_bytes b = [if b then 1 else 0]"

lemma varint_loop_at:
  assumes "valid_slice (pre @ varint_bytes v @ rest)"
  shows "varint_loop (pre @ varint_bytes v @ rest) (int (length pre)) 0 (0 :: 'a::len word)
    = (None, int (length pre) + int (length (varint_bytes v)), ucast v)"
proof -
  have "unat v < 2 ^ (64 - 0)" using unsigned_less [of v, where 'a = nat] by simp
  from varint_loop_encode [OF _ assms this, of 0] show ?thesis
    by (simp add: length_varint_bytes)
qed

lemma ucast_ucast_u32 [simp]: "ucast (ucast (h :: u32) :: u64) = h"
  by (rule bit_word_eqI) (simp add: bit_simps)

lemma bool_bytes_varint: "bool_bytes b = varint_bytes (if b then 1 else 0)"
  by (simp add: bool_bytes_def varint_bytes.simps word_le_nat_alt)

lemma sint_small: "int n < 2 ^ 63 \<Longrightarrow> sint (of_nat n :: u64) = int n"
  by (simp add: signed_of_nat signed_take_bit_int_eq_self_iff)

interpretation u64_codec: wire_codec varint_bytes "read_uint :: bytes \<Rightarrow> int \<Rightarrow> (pb_error, u64 \<times> int) result"
  by unfold_locales (simp add: read_uint_def varint_loop_at)

interpretation u32_codec: wire_codec "\<lambda>v. varint_bytes (ucast v)"
  "read_uint :: bytes \<Rightarrow> int \<Rightarrow> (pb_error, u32 \<times> int) result"
  by unfold_locales (simp add: read_uint_def varint_loop_at ucast_ucast_u32)

interpretation bool_codec: wire_codec bool_bytes read_bool
  by unfold_locales (auto simp: read_bool_def bool_bytes_varint varint_loop_at)

interpretation string_codec: wire_codec string_bytes read_string
proof unfold_locales
  fix pre :: bytes and s :: string and rest :: bytes
  assume v: "valid_slice (pre @ string_bytes s @ rest)"
  let ?p = "int (length pre) + int (length (varint_bytes (of_nat (length s))))"
  have l: "?p + int (length s) \<le> max_int"
    using v by (simp add: valid_slice_def string_bytes_def)
  then have n: "sint (of_nat (length s) :: u64) = int (length s)"
    by (intro sint_small) (simp add: max_int_def)
  have "varint_loop (pre @ string_bytes s @ rest) (int (length pre)) 0 (0 :: u64)
      = (None, ?p, of_nat (length s))"
    using varint_loop_at [of pre "of_nat (length s)" "bytes_of_string s @ rest", where 'a = 64] v
    by (simp add: string_bytes_def)
  moreover have "i64 (?p + int (length s)) = ?p + int (length s)"
    using l by (intro i64_id) (auto simp: max_int_def)
  moreover have "subslice (pre @ string_bytes s @ rest) ?p (?p + int (length s))
      = Some (bytes_of_string s)"
    using subslice_append [of "pre @ varint_bytes (of_nat (length s))" "bytes_of_string s" rest]
    by (simp add: string_bytes_def)
  ultimately show "read_string (pre @ string_bytes s @ rest) (int (length pre))
      = Inr (s, int (length pre) + int (length (string_bytes s)))"
    using v by (simp add: read_string_def n Let_def len_valid) (simp add: string_bytes_def)
qed

section \<open>One field\<close>

text \<open>
  \<open>reads bs upd\<close>: wherever the bytes \<open>bs\<close> stand in a slice, the message loop that has
  reached them goes on behind them with the message updated by \<open>upd\<close>.
\<close>

definition reads :: "bytes \<Rightarrow> (MemberStatus \<Rightarrow> MemberStatus) \<Rightarrow> bool" where
  "reads bs upd \<longleftrightarrow>
     (\<forall>pre rest m. valid_slice (pre @ bs @ rest) \<longrightarrow>
        unmarshal_loop (pre @ bs @ rest) (int (length pre)) m
          = unmarshal_loop (pre @ bs @ rest) (int (length pre) + int (length bs)) (upd m))"

lemma readsD:
  "reads bs upd \<Longrightarrow> valid_slice (pre @ bs @ rest) \<Longrightarrow>
   unmarshal_loop (pre @ bs @ rest) (int (length pre)) m
     = unmarshal_loop (pre @ bs @ rest) (int (length pre) + int (length bs)) (upd m)"
  by (simp add: reads_def)

lemma reads_Nil: "reads [] (\<lambda>m. m)"
  by (simp add: reads_def)

lemma reads_append:
  assumes "reads xs f" "reads ys g"
  shows "reads (xs @ ys) (\<lambda>m. g (f m))"
  unfolding reads_def
proof (intro allI impI)
  fix pre rest :: bytes and m
  assume v: "valid_slice (pre @ (xs @ ys) @ rest)"
  show "unmarshal_loop (pre @ (xs @ ys) @ rest) (int (length pre)) m
      = unmarshal_loop (pre @ (xs @ ys) @ rest) (int (length pre) + int (length (xs @ ys))) (g (f m))"
    using readsD [OF assms(1), of pre "ys @ rest" m] readsD [OF assms(2), of "pre @ xs" rest "f m"] v
    by (simp add: add.assoc)
qed

lemma reads_step:
  assumes "bs \<noteq> []"
    and "\<And>pre rest m. valid_slice (pre @ bs @ rest) \<Longrightarrow>
      unmarshal_step (pre @ bs @ rest) (int (length pre)) m
        = (None, int (length pre) + int (length bs), upd m)"
  shows "reads bs upd"
  unfolding reads_def
proof (intro allI impI)
  fix pre rest :: bytes and m
  assume v: "valid_slice (pre @ bs @ rest)"
  then have "int (length pre) < len (pre @ bs @ rest)" using assms(1) by (cases bs) (simp_all add: len_valid)
  then show "unmarshal_loop (pre @ bs @ rest) (int (length pre)) m
      = unmarshal_loop (pre @ bs @ rest) (int (length pre) + int (length bs)) (upd m)"
    using assms(2) [OF v] by (subst unmarshal_loop.simps) simp
qed

text \<open>A one-byte tag.\<close>

lemma step_after_tag:
  assumes "valid_slice (pre @ t # bs @ rest)" "t < 128"
    and "uint (ucast t AND 0x7 :: u64) = wt" "wt \<noteq> 4"
    and "sint (ucast (drop_bit 3 (ucast t :: u64)) :: u32) = fn" "0 < fn"
  shows "unmarshal_step (pre @ t # bs @ rest) (int (length pre)) m
    = unmarshal_field (pre @ t # bs @ rest) (int (length pre)) (int (length pre) + 1) fn wt m"
proof -
  have "ucast t AND 127 = (ucast t :: u64)"
    using assms(2) unfolding and_127_eq_take_bit
    by (intro take_bit_word_eq_self_nat)
      (auto simp: word_less_nat_alt unsigned_ucast_eq intro: le_less_trans [OF take_bit_nat_less_eq_self])
  then have "varint_loop (pre @ t # bs @ rest) (int (length pre)) 0 (0 :: u64)
      = (None, int (length pre) + 1, ucast t)"
    using assms(1,2) by (subst varint_loop_last [where b = t]) (auto simp: len_valid)
  then show ?thesis
    using assms(3-6) by (simp add: unmarshal_step_def)
qed

lemma string_case_codec:
  assumes "valid_slice (pre @ t # string_bytes s @ rest)"
  shows "string_case (pre @ t # string_bytes s @ rest) (int (length pre) + 1) 2 field set_field m
    = (None, int (length pre) + int (length (t # string_bytes s)), set_field s m)"
  using string_codec.get_after_tag [OF assms] by (simp add: string_case_def)

lemma uint_case_read:
  "read_uint d i = Inr (v :: 'a::len word, j) \<Longrightarrow> uint_case d i 0 field set_field m = (None, j, set_field v m)"
  by (auto simp: read_uint_def uint_case_def split: prod.splits option.splits)

lemma bool_case_read:
  "read_bool d i = Inr (b, j) \<Longrightarrow> bool_case d i 0 field set_field m = (None, j, set_field b m)"
  by (auto simp: read_bool_def bool_case_def split: prod.splits option.splits)

lemma reads_string_field:
  assumes "tag < 128" "uint (ucast tag AND 0x7 :: u64) = 2"
    and "sint (ucast (drop_bit 3 (ucast tag :: u64)) :: u32) = fn" "0 < fn"
    and "\<And>d p i m. unmarshal_field d p i fn 2 m = string_case d i 2 field set_field m"
  shows "reads (string_field tag s) (\<lambda>m. if s = [] then m else set_field s m)"
proof (cases "s = []")
  case True
  then show ?thesis using reads_Nil by (simp add: string_field_def)
next
  case False
  have "reads (tag # string_bytes s) (set_field s)"
    by (rule reads_step)
      (simp_all add: step_after_tag [OF _ assms(1,2) _ assms(3,4)] assms(5) string_case_codec)
  then show ?thesis using False by (simp add: string_field_def)
qed

lemma reads_uint_field:
  fixes set_field :: "'a::len word \<Rightarrow> MemberStatus \<Rightarrow> MemberStatus"
  assumes "tag < 128" "uint (ucast tag AND 0x7 :: u64) = 0"
    and "sint (ucast (drop_bit 3 (ucast tag :: u64)) :: u32) = fn" "0 < fn"
    and "\<And>d p i m. unmarshal_field d p i fn 0 m = uint_case d i 0 field set_field m"
    and "wire_codec (\<lambda>v. varint_bytes (ucast v))
      (read_uint :: bytes \<Rightarrow> int \<Rightarrow> (pb_error, 'a word \<times> int) result)"
  shows "reads (uint_field tag (ucast v)) (\<lambda>m. if ucast v = (0 :: u64) then m else set_field v m)"
proof (cases "ucast v = (0 :: u64)")
  case True
  then show ?thesis using reads_Nil by (simp add: uint_field_def)
next
  case False
  have "reads (tag # varint_bytes (ucast v)) (set_field v)"
    by (rule reads_step)
      (simp_all add: step_after_tag [OF _ assms(1,2) _ assms(3,4)] assms(5)
        uint_case_read [OF wire_codec.get_after_tag [OF assms(6)]])
  then show ?thesis using False by (simp add: uint_field_def)
qed

lemma reads_bool_field: "reads (bool_field 0x20 b) (\<lambda>m. if b then m\<lparr>IsLeader := b\<rparr> else m)"
proof (cases b)
  case True
  have "reads (0x20 # bool_bytes b) (\<lambda>m. m\<lparr>IsLeader := b\<rparr>)"
    by (rule reads_step)
      (simp_all add: step_after_tag [where wt = 0 and fn = 4] unmarshal_field_def
        bool_case_read [OF bool_codec.get_after_tag])
  then show ?thesis using True by (simp add: bool_field_def bool_bytes_def)
qed (use reads_Nil in \<open>simp add: bool_field_def\<close>)

section \<open>The whole message\<close>

text \<open>
  What a message read into \<open>m0\<close> leaves there: each field that the sender set, and the old
  value of each field the sender left at its zero value.
\<close>

definition merge_status :: "MemberStatus \<Rightarrow> MemberStatus \<Rightarrow> MemberStatus" where
  "merge_status m m0 =
     \<lparr>Name = (if Name m = [] then Name m0 else Name m),
      ID = (if ID m = [] then ID m0 else ID m),
      Endpoint = (if Endpoint m = [] then Endpoint m0 else Endpoint m),
      IsLeader = (IsLeader m \<or> IsLeader m0),
      State = (if State m = [] then State m0 else State m),
      StateTxt = (if StateTxt m = [] then StateTxt m0 else StateTxt m),
      DBSize = (if DBSize m = 0 then DBSize m0 else DBSize m),
      DBSizeTxt = (if DBSizeTxt m = [] then DBSizeTxt m0 else DBSizeTxt m),
      Hash = (if Hash m = 0 then Hash m0 else Hash m)\<rparr>"

lemma merge_status_empty [simp]: "merge_status m empty_status = m"
  by (simp add: merge_status_def empty_status_def)

lemma reads_encode: "reads (encode m) (merge_status m)"
proof -
  have u64: "wire_codec (\<lambda>v. varint_bytes (ucast v))
      (read_uint :: bytes \<Rightarrow> int \<Rightarrow> (pb_error, u64 \<times> int) result)"
    using u64_codec.wire_codec_axioms by simp
  note u32 = u32_codec.wire_codec_axioms
  have f1: "reads (string_field 0x0a (Name m)) (\<lambda>x. if Name m = [] then x else x\<lparr>Name := Name m\<rparr>)"
    by (rule reads_string_field [where fn = 1]) (simp_all add: unmarshal_field_def)
  have f2: "reads (string_field 0x12 (ID m)) (\<lambda>x. if ID m = [] then x else x\<lparr>ID := ID m\<rparr>)"
    by (rule reads_string_field [where fn = 2]) (simp_all add: unmarshal_field_def)
  have f3: "reads (string_field 0x1a (Endpoint m))
      (\<lambda>x. if Endpoint m = [] then x else x\<lparr>Endpoint := Endpoint m\<rparr>)"
    by (rule reads_string_field [where fn = 3]) (simp_all add: unmarshal_field_def)
  have f5: "reads (string_field 0x2a (State m)) (\<lambda>x. if State m = [] then x else x\<lparr>State := State m\<rparr>)"
    by (rule reads_string_field [where fn = 5]) (simp_all add: unmarshal_field_def)
  have f6: "reads (string_field 0x32 (StateTxt m))
      (\<lambda>x. if StateTxt m = [] then x else x\<lparr>StateTxt := StateTxt m\<rparr>)"
    by (rule reads_string_field [where fn = 6]) (simp_all add: unmarshal_field_def)
  have f7: "reads (uint_field 0x38 (DBSize m))
      (\<lambda>x. if DBSize m = 0 then x else x\<lparr>DBSize := DBSize m\<rparr>)"
    using reads_uint_field [OF _ _ _ _ _ u64, where tag = "0x38" and fn = 7 and v = "DBSize m"
        and set_field = "\<lambda>v x. x\<lparr>DBSize := v\<rparr>" and field = "''DBSize''"]
    by (simp add: unmarshal_field_def)
  have f8: "reads (string_field 0x42 (DBSizeTxt m))
      (\<lambda>x. if DBSizeTxt m = [] then x else x\<lparr>DBSizeTxt := DBSizeTxt m\<rparr>)"
    by (rule reads_string_field [where fn = 8]) (simp_all add: unmarshal_field_def)
  have f9: "reads (uint_field 0x48 (ucast (Hash m)))
      (\<lambda>x. if Hash m = 0 then x else x\<lparr>Hash := Hash m\<rparr>)"
    using reads_uint_field [OF _ _ _ _ _ u32, where tag = "0x48" and fn = 9 and v = "Hash m"
        and set_field = "\<lambda>v x. x\<lparr>Hash := v\<rparr>" and field = "''Hash''"]
    by (simp add: unmarshal_field_def)
  show ?thesis
    using f1 [THEN reads_append, OF f2 [THEN reads_append, OF f3 [THEN reads_append,
      OF reads_bool_field [of "IsLeader m", THEN reads_append, OF f5 [THEN reads_append,
      OF f6 [THEN reads_append, OF f7 [THEN reads_append, OF f8 [THEN reads_append, OF f9]]]]]]]]
    unfolding encode_def
    by (rule back_subst [where P = "reads _"]) (auto simp: merge_status_def fun_eq_iff)
qed

lemma unmarshal_loop_end: "valid_slice d \<Longrightarrow> unmarshal_loop d (int (length d)) m = (None, m)"
  by (subst unmarshal_loop.simps) (simp add: len_valid)

lemma Unmarshal_reads:
  assumes "reads bs upd" "valid_slice bs"
  shows "Unmarshal bs m = (None, upd m)"
  using readsD [OF assms(1), of "[]" "[]" m] assms(2)
  by (simp add: Unmarshal_def unmarshal_loop_end)

end
