(* ===== verification/ClusterpbSafety.thy ===== *)
theory ClusterpbSafety
  imports ClusterpbRoundtrip
begin

text \<open>
  Which inputs can make the decoder panic. A length prefix close to \<open>2 ^ 63\<close> wraps the
  index; such a prefix takes nine bytes after a one-byte tag, so inputs of fewer than ten
  bytes are safe. The second part: \<open>skipClusterpb\<close> skips exactly one well-formed field.
\<close>

section \<open>The value of a short varint\<close>

lemma or_push_less:
  assumes "unat (acc :: u64) < 2 ^ s" "s < 64"
  shows "unat (acc OR push_bit s (ucast (b :: u8) AND 127)) < 2 ^ (s + 7)"
proof -
  have "take_bit s acc = acc" using assms(1) by (rule take_bit_word_eq_self_nat)
  then have acc: "\<And>n. bit acc n \<Longrightarrow> n < s" by (metis bit_take_bit_iff)
  have "take_bit (s + 7) (acc OR push_bit s (ucast b AND 127)) = acc OR push_bit s (ucast b AND 127)"
    unfolding and_127_eq_take_bit
  proof (rule bit_word_eqI)
    fix n
    show "bit (take_bit (s + 7) (acc OR push_bit s (take_bit 7 (ucast b)))) n
        = bit (acc OR push_bit s (take_bit 7 (ucast b))) n"
    proof (cases "n < s")
      case True
      then show ?thesis by (simp add: bit_take_bit_iff bit_or_iff)
    next
      case False
      then have acc_n: "\<not> bit acc n" using acc by blast
      show ?thesis
      proof (cases "n < s + 7")
        case True
        then show ?thesis by (simp only: bit_take_bit_iff simp_thms)
      next
        case False
        then have "\<not> n - s < 7" by arith
        with acc_n False show ?thesis
          by (simp add: bit_take_bit_iff bit_or_iff bit_push_bit_iff)
      qed
    qed
  qed
  then have "unat (take_bit (s + 7) (acc OR push_bit s (ucast b AND 127)))
      = unat (acc OR push_bit s (ucast b AND 127))"
    by (rule arg_cong)
  then have "take_bit (s + 7) (unat (acc OR push_bit s (ucast b AND 127)))
      = unat (acc OR push_bit s (ucast b AND 127))"
    by (simp only: unsigned_take_bit_eq)
  then show ?thesis by (simp only: take_bit_nat_eq_self_iff)
qed

lemma varint_loop_value:
  "varint_loop d i shift (acc :: u64) = (None, j, v) \<Longrightarrow> unat acc < 2 ^ shift \<Longrightarrow>
   unat v < 2 ^ (shift + 7 * nat (j - i))"
proof (induction d i shift acc rule: varint_loop.induct)
  case (1 d i shift acc)
  from "1.prems"(1) obtain b where b: "shift < 64" "index d i = Some b" "0 \<le> i" "i < len d"
    by (rule varint_loop_NoneD)
  let ?acc = "acc OR push_bit shift (ucast b AND 127)"
  have less: "unat ?acc < 2 ^ (shift + 7)" using "1.prems"(2) b(1) by (rule or_push_less)
  show ?case
  proof (cases "b < 128")
    case True
    with b "1.prems"(1) less show ?thesis by (auto simp: varint_loop_last)
  next
    case False
    with b "1.prems"(1) have next_loop: "varint_loop d (i + 1) (shift + 7) ?acc = (None, j, v)"
      by (simp add: varint_loop_more)
    have "i + 1 < j" using varint_loop_bounds [OF next_loop] by simp
    then have e: "shift + 7 + 7 * nat (j - (i + 1)) = shift + 7 * nat (j - i)" by simp
    have "unat v < 2 ^ (shift + 7 + 7 * nat (j - (i + 1)))"
      using b False next_loop less by (intro "1.IH") auto
    then show ?thesis by (simp only: e)
  qed
qed

lemma short_varint:
  assumes "varint_loop d i 0 (0 :: u64) = (None, j, v)" "1 \<le> i" "len d \<le> 9"
  shows "0 \<le> sint v \<and> sint v < 2 ^ 56"
proof -
  from varint_loop_bounds [OF assms(1)] assms(2,3) have "nat (j - i) \<le> 8" by auto
  then have "unat v < 2 ^ 56"
    using varint_loop_value [OF assms(1)] power_increasing [of "7 * nat (j - i)" 56 "2 :: nat"]
    by auto
  then have less: "int (unat v) < int (2 ^ 56)" by (simp only: of_nat_less_iff)
  moreover have "int (2 ^ 56) < 2 ^ 63" by simp
  ultimately have "sint (of_nat (unat v) :: u64) = int (unat v)"
    by (intro sint_small) (rule less_trans)
  moreover have v: "(of_nat (unat v) :: u64) = v" by simp
  ultimately have "sint v = int (unat v)" by (simp only: v)
  then have "0 \<le> sint v \<and> sint v < int (2 ^ 56)" using less by (simp only: of_nat_0_le_iff)
  then show ?thesis by simp
qed

section \<open>No panic on short input\<close>

lemma skip_varint_no_panic: "0 \<le> i \<Longrightarrow> skip_varint d i shift = Inl f \<Longrightarrow> \<exists>e. f = Error e"
proof (induction d i shift rule: skip_varint.induct)
  case (1 d i shift)
  then show ?case
    using len_bounds(2) [of d]
    by (subst (asm) (2) skip_varint.simps) (auto simp: index_def split: if_splits option.splits)
qed

text \<open>A skip that does not panic, and whose count is positive and below a bound.\<close>

definition skips_below :: "int \<Rightarrow> (pb_error, int) result \<Rightarrow> bool" where
  "skips_below B r = (case r of Inl f \<Rightarrow> \<not> panics (Inl f :: (pb_error, int) result) | Inr n \<Rightarrow> 0 < n \<and> n < B)"

lemma skips_below_simps [simp]:
  "skips_below B (Inl (Error e))" "skips_below B (Inr n) \<longleftrightarrow> 0 < n \<and> n < B"
  by (simp_all add: skips_below_def)

lemma skips_below_mono: "skips_below B r \<Longrightarrow> B \<le> C \<Longrightarrow> skips_below C r"
  by (auto simp: skips_below_def split: sum.splits)

lemma skip_varint_short:
  assumes "0 \<le> i" "len d \<le> 9"
  shows "skips_below (2 ^ 57) (skip_varint d i shift)"
  using skip_varint_no_panic [OF assms(1)] skip_varint_bounds [of d i shift] assms
  by (cases "skip_varint d i shift") fastforce+

lemma skip_bytes_short:
  assumes "1 \<le> i" "len d \<le> 9"
  shows "skips_below (2 ^ 57) (skip_bytes d i)"
proof -
  obtain s j v where loop: "varint_loop d i 0 (0 :: u64) = (s, j, v)" by (rule prod_cases3)
  show ?thesis
  proof (cases s)
    case None
    note l = loop [unfolded None]
    have "0 \<le> sint v \<and> sint v < 2 ^ 56" using short_varint [OF l] assms by simp
    moreover have "i < j \<and> j \<le> len d" using varint_loop_bounds [OF l] by simp
    ultimately show ?thesis
      using assms by (auto simp: skip_bytes_def l Let_def i64_id)
  next
    case (Some g)
    then show ?thesis
      using varint_loop_no_panic [of i d 0 "0 :: u64" g j v] loop assms by (auto simp: skip_bytes_def)
  qed
qed

lemma len_slice_from: "slice_from d i = Some rest \<Longrightarrow> len rest = len d - i"
  using slice_from_SomeD [of d i rest] len_bounds [of d] by (simp add: len_def max_int_def)

lemma skip_short:
  "len d \<le> 9 \<Longrightarrow> 0 < len d \<Longrightarrow> skips_below (2 ^ 57) (skipClusterpb d)"
  "len d \<le> 9 \<Longrightarrow> 1 \<le> i \<Longrightarrow> skips_below 10 (skip_group d i)"
proof (induction d and d i rule: skipClusterpb_skip_group.induct)
  case (1 d)
  obtain s j v where loop: "varint_loop d 0 0 (0 :: u64) = (s, j, v)" by (rule prod_cases3)
  show ?case
  proof (cases s)
    case None
    note l = loop [unfolded None]
    have j: "1 \<le> j" "j \<le> len d" using varint_loop_bounds [OF l] by auto
    have group: "skips_below (2 ^ 57) (skip_group d j)" if "uint (v AND 7) = 3"
      using "1.IH" [OF "1.prems"(2) loop [symmetric] None refl refl] that "1.prems"(1) j
      by (auto intro: skips_below_mono)
    show ?thesis
      using "1.prems" j group skip_bytes_short [OF j(1) "1.prems"(1)]
        skip_varint_short [OF _ "1.prems"(1), of j 0]
      by (auto simp: skipClusterpb.simps [of d] l Let_def i64_id)
  next
    case (Some f)
    then obtain e where "f = Error e"
      using varint_loop_no_panic [OF _ loop [unfolded Some]] by auto
    then show ?thesis using "1.prems" Some by (auto simp: skipClusterpb.simps [of d] loop)
  qed
next
  case (2 d i)
  obtain s j v where loop: "varint_loop d i 0 (0 :: u64) = (s, j, v)" by (rule prod_cases3)
  show ?case
  proof (cases s)
    case None
    note l = loop [unfolded None]
    have j: "i < j" "j \<le> len d" using varint_loop_bounds [OF l] by auto
    obtain rest where rest: "slice_from d i = Some rest"
      using j "2.prems"(2) len_bounds(2) [of d] by (auto simp: slice_from_def subslice_def)
    have lr: "len rest \<le> 9" "0 < len rest"
      using len_slice_from [OF rest] "2.prems" j by auto
    note unfold = skip_group.simps [of d i] l rest
    show ?thesis
    proof (cases "uint (v AND 7) = 4")
      case True
      then show ?thesis using j "2.prems" by (simp add: unfold)
    next
      case ne: False
      have skip: "skips_below (2 ^ 57) (skipClusterpb rest)"
        using "2.IH"(1) [OF loop [symmetric] None refl ne rest] lr by simp
      show ?thesis
      proof (cases "skipClusterpb rest")
        case (Inl f)
        then show ?thesis using skip ne by (simp add: unfold skips_below_def)
      next
        case (Inr n)
        then have "i64 (i + n) = i + n" "0 < n"
          using skip "2.prems" j by (auto intro!: i64_id)
        then show ?thesis
          using "2.IH"(2) [OF loop [symmetric] None refl ne rest Inr] "2.prems" ne
          by (simp add: unfold Inr)
      qed
    qed
  next
    case (Some f)
    then obtain e where "f = Error e"
      using varint_loop_no_panic [OF _ loop [unfolded Some]] "2.prems"(2) by auto
    then show ?thesis using "2.prems" Some by (auto simp: skip_group.simps [of d i] loop)
  qed
qed

section \<open>The message loop on short input\<close>

lemma read_string_short:
  assumes "1 \<le> i" "len d \<le> 9"
  shows "\<not> panics (read_string d i)"
proof -
  obtain s j v where loop: "varint_loop d i 0 (0 :: u64) = (s, j, v)" by (rule prod_cases3)
  show ?thesis
  proof (cases s)
    case None
    note l = loop [unfolded None]
    have "0 \<le> sint v \<and> sint v < 2 ^ 56" using short_varint [OF l] assms by simp
    moreover have "i < j \<and> j \<le> len d" using varint_loop_bounds [OF l] by simp
    ultimately show ?thesis
      using assms len_bounds(2) [of d]
      by (auto simp: read_string_def l Let_def i64_id subslice_def)
  next
    case (Some g)
    then show ?thesis
      using varint_loop_no_panic [of i d 0 "0 :: u64" g j v] loop assms by (auto simp: read_string_def)
  qed
qed

definition short_step :: "step \<Rightarrow> bool" where
  "short_step r = (case r of (Some (Panic _), _, _) \<Rightarrow> False | (Some (Error _), _, _) \<Rightarrow> True
     | (None, j, _) \<Rightarrow> 0 \<le> j)"

lemma short_step_simps [simp]:
  "short_step (Some (Error e), j, m)" "\<not> short_step (Some (Panic s), j, m)"
  "short_step (None, j, m) \<longleftrightarrow> 0 \<le> j"
  by (simp_all add: short_step_def)

lemma string_case_short:
  "1 \<le> i \<Longrightarrow> len d \<le> 9 \<Longrightarrow> short_step (string_case d i wt field set_field m)"
  using read_string_short [of i d] read_string_index [of d i]
  by (cases "read_string d i") (fastforce simp: string_case_def panics_def split: fault.splits)+

lemma bool_case_short:
  assumes "1 \<le> i"
  shows "short_step (bool_case d i wt field set_field m)"
proof -
  obtain s j v where loop: "varint_loop d i 0 (0 :: u64) = (s, j, v)" by (rule prod_cases3)
  show ?thesis
    using assms varint_loop_no_panic [of i d 0 "0 :: u64" _ j v] varint_loop_bounds [of d i 0 "0 :: u64" j v]
    by (cases s) (auto simp: bool_case_def loop)
qed

lemma uint_case_short:
  fixes set_field :: "'a::len word \<Rightarrow> MemberStatus \<Rightarrow> MemberStatus"
  assumes "1 \<le> i"
  shows "short_step (uint_case d i wt field set_field m)"
proof -
  obtain s j v where loop: "varint_loop d i 0 (0 :: 'a word) = (s, j, v)" by (rule prod_cases3)
  show ?thesis
    using assms varint_loop_no_panic [of i d 0 "0 :: 'a word" _ j v]
      varint_loop_bounds [of d i 0 "0 :: 'a word" j v]
    by (cases s) (auto simp: uint_case_def loop)
qed

lemma unknown_case_short:
  assumes "0 \<le> i" "i < len d" "len d \<le> 9"
  shows "short_step (unknown_case d i m)"
proof -
  obtain rest where rest: "slice_from d i = Some rest"
    using assms len_bounds(2) [of d] by (auto simp: slice_from_def subslice_def)
  have "skips_below (2 ^ 57) (skipClusterpb rest)"
    using len_slice_from [OF rest] assms by (intro skip_short) auto
  then show ?thesis
    using assms by (cases "skipClusterpb rest")
      (auto simp: unknown_case_def rest i64_id skips_below_def panics_def split: fault.splits)
qed

lemma unmarshal_step_short:
  assumes "0 \<le> i" "i < len d" "len d \<le> 9"
  shows "short_step (unmarshal_step d i m)"
proof -
  obtain s j wire where loop: "varint_loop d i 0 (0 :: u64) = (s, j, wire)" by (rule prod_cases3)
  show ?thesis
  proof (cases s)
    case None
    then have "1 \<le> j" using varint_loop_bounds [of d i 0 "0 :: u64" j wire] loop assms by simp
    with None show ?thesis
      using assms by (simp add: unmarshal_step_def loop Let_def unmarshal_field_def
          string_case_short bool_case_short uint_case_short unknown_case_short)
  next
    case (Some f)
    then show ?thesis
      using varint_loop_no_panic [of i d 0 "0 :: u64" f j wire] loop assms
      by (auto simp: unmarshal_step_def)
  qed
qed

lemma unmarshal_loop_short:
  "0 \<le> i \<Longrightarrow> len d \<le> 9 \<Longrightarrow> fst (unmarshal_loop d i m) \<noteq> Some (Panic s)"
proof (induction d i m rule: unmarshal_loop.induct)
  case (1 d i m)
  show ?case
  proof (cases "i < len d")
    case True
    obtain f j m' where step: "unmarshal_step d i m = (f, j, m')" by (rule prod_cases3)
    have short: "short_step (f, j, m')" using unmarshal_step_short True "1.prems" by (metis step)
    show ?thesis
      using short "1.IH" [OF True step [symmetric] _ refl] "1.prems" True
      by (cases f) (auto simp: unmarshal_loop.simps [of d i m] step short_step_def split: fault.splits)
  qed (simp add: unmarshal_loop.simps [of d i m])
qed

section \<open>A length that wraps the index\<close>

lemma read_string_wraps:
  assumes "valid_slice (pre @ varint_bytes L @ rest)" "sint L \<ge> 0"
    and "2 ^ 63 \<le> int (length pre) + int (sovClusterpb L) + sint L"
  shows "read_string (pre @ varint_bytes L @ rest) (int (length pre)) = Inl (Panic slice_panic)"
proof -
  let ?d = "pre @ varint_bytes L @ rest" and ?p = "int (length pre) + int (sovClusterpb L)"
  have loop: "varint_loop ?d (int (length pre)) 0 (0 :: u64) = (None, ?p, L)"
    using varint_loop_at [OF assms(1), where 'a = 64] by (simp add: length_varint_bytes)
  have p: "?p \<le> max_int" using assms(1) by (simp add: valid_slice_def length_varint_bytes)
  have "sint L < 2 ^ 63" using sint_lt [of L] by simp
  then have w: "i64 (?p + sint L) = ?p + sint L - 2 ^ 64"
    using assms p by (intro i64_add_wrap) (auto simp: max_int_def)
  moreover have neg: "?p + sint L - 2 ^ 64 < 0"
    using p \<open>sint L < 2 ^ 63\<close> by (simp add: max_int_def)
  moreover have "\<not> ?p + sint L - 2 ^ 64 > len ?d" using neg len_bounds(1) [of ?d] by linarith
  moreover have "subslice ?d ?p (?p + sint L - 2 ^ 64) = None"
    using neg by (simp add: subslice_def)
  ultimately show ?thesis using assms(2) by (simp add: read_string_def loop)
qed

end
