(* ===== verification/ClusterpbUnknown.thy ===== *)
theory ClusterpbUnknown
  imports ClusterpbSafety
begin

text \<open>
  Fields the message does not know. \<open>wire_field\<close> is the grammar of well-formed protobuf
  fields, groups nested to any depth; \<open>skipClusterpb\<close> consumes exactly the bytes of one, and
  \<open>Unmarshal\<close> ignores those whose number it does not know.
\<close>

section \<open>Well-formed fields\<close>

datatype wire_field =
    VarintField u64 u64
  | Fixed64Field u64 u64
  | BytesField u64 bytes
  | GroupField u64 "wire_field list"
  | Fixed32Field u64 u32

primrec field_number :: "wire_field \<Rightarrow> u64" where
  "field_number (VarintField n v) = n"
| "field_number (Fixed64Field n v) = n"
| "field_number (BytesField n bs) = n"
| "field_number (GroupField n fs) = n"
| "field_number (Fixed32Field n v) = n"

primrec wire_type :: "wire_field \<Rightarrow> u64" where
  "wire_type (VarintField n v) = 0"
| "wire_type (Fixed64Field n v) = 1"
| "wire_type (BytesField n bs) = 2"
| "wire_type (GroupField n fs) = 3"
| "wire_type (Fixed32Field n v) = 5"

definition wire_key :: "u64 \<Rightarrow> u64 \<Rightarrow> u64" where
  "wire_key n t = push_bit 3 n OR t"

definition fixed64_bytes :: "u64 \<Rightarrow> bytes" where
  "fixed64_bytes v =
     [ucast v, ucast (drop_bit 8 v), ucast (drop_bit 16 v), ucast (drop_bit 24 v),
      ucast (drop_bit 32 v), ucast (drop_bit 40 v), ucast (drop_bit 48 v), ucast (drop_bit 56 v)]"

definition fixed32_bytes :: "u32 \<Rightarrow> bytes" where
  "fixed32_bytes v = [ucast v, ucast (drop_bit 8 v), ucast (drop_bit 16 v), ucast (drop_bit 24 v)]"

fun field_bytes :: "wire_field \<Rightarrow> bytes" where
  "field_bytes (VarintField n v) = varint_bytes (wire_key n 0) @ varint_bytes v"
| "field_bytes (Fixed64Field n v) = varint_bytes (wire_key n 1) @ fixed64_bytes v"
| "field_bytes (BytesField n bs) = varint_bytes (wire_key n 2) @ varint_bytes (of_nat (length bs)) @ bs"
| "field_bytes (GroupField n fs) =
     varint_bytes (wire_key n 3) @ concat (map field_bytes fs) @ varint_bytes (wire_key n 4)"
| "field_bytes (Fixed32Field n v) = varint_bytes (wire_key n 5) @ fixed32_bytes v"

lemma length_fixed [simp]: "length (fixed64_bytes v) = 8" "length (fixed32_bytes w) = 4"
  by (simp_all add: fixed64_bytes_def fixed32_bytes_def)

text \<open>The fixed-width writers of the package store exactly these bytes.\<close>

lemma encodeFixed64_eq:
  assumes "0 \<le> i" "i + 8 \<le> int (length d)"
  shows "encodeFixed64Clusterpb d i v =
    Some (take (nat i) d @ fixed64_bytes v @ drop (nat i + 8) d, i + 8)"
proof -
  have "store_all d i (fixed64_bytes v) =
      Some (take (nat i) d @ fixed64_bytes v @ drop (nat i + 8) d, i + 8)"
    using assms by (simp add: store_all_fits)
  then show ?thesis by (simp add: encodeFixed64Clusterpb_def fixed64_bytes_def del: store_all.simps)
qed

lemma encodeFixed32_eq:
  assumes "0 \<le> i" "i + 4 \<le> int (length d)"
  shows "encodeFixed32Clusterpb d i v =
    Some (take (nat i) d @ fixed32_bytes v @ drop (nat i + 4) d, i + 4)"
proof -
  have "store_all d i (fixed32_bytes v) =
      Some (take (nat i) d @ fixed32_bytes v @ drop (nat i + 4) d, i + 4)"
    using assms by (simp add: store_all_fits)
  then show ?thesis by (simp add: encodeFixed32Clusterpb_def fixed32_bytes_def del: store_all.simps)
qed

section \<open>Keys\<close>

lemma small_bits: "(t :: u64) < 8 \<Longrightarrow> bit t n \<Longrightarrow> n < 3"
  using take_bit_word_eq_self_nat [of t 3] bit_take_bit_iff [of 3 t n]
  by (simp add: word_less_nat_alt)

lemma wire_key_type: "t < 8 \<Longrightarrow> wire_key n t AND 7 = t"
proof -
  assume t: "t < 8"
  have "wire_key n t AND 7 = take_bit 3 (wire_key n t)"
    by (simp add: take_bit_eq_mask mask_eq_exp_minus_1)
  also have "\<dots> = t"
    using small_bits [OF t] by (intro bit_word_eqI) (auto simp: wire_key_def bit_simps)
  finally show ?thesis .
qed

lemma wire_key_number:
  assumes "t < 8" "n < 2 ^ 61"
  shows "drop_bit 3 (wire_key n t) = n"
proof (rule bit_word_eqI)
  fix k
  assume "k < LENGTH(64)"
  have "unat n < unat ((2 :: u64) ^ 61)" using assms(2) by (simp only: word_less_nat_alt)
  then have "unat n < 2 ^ 61" by simp
  then have "bit n k \<Longrightarrow> k < 61"
    using take_bit_word_eq_self_nat [of n 61] bit_take_bit_iff [of 61 n k] by simp
  then show "bit (drop_bit 3 (wire_key n t)) k = bit n k"
    using small_bits [OF assms(1), of "3 + k"] \<open>k < LENGTH(64)\<close>
    by (auto simp: wire_key_def bit_simps)
qed

section \<open>Skipping one field\<close>

text \<open>The loop that drops a varint ends where the loop that reads it ends.\<close>

lemma skip_varint_eq_loop:
  "skip_varint d i shift =
     (case varint_loop d i shift (acc :: 'a::len word) of (Some f, _, _) \<Rightarrow> Inl f | (None, j, _) \<Rightarrow> Inr j)"
proof (induction d i shift arbitrary: acc rule: skip_varint.induct)
  case (1 d i shift)
  show ?case
    using "1.IH"
    by (subst skip_varint.simps, subst varint_loop.simps)
      (auto simp: Let_def split: option.splits)
qed

lemma skip_varint_at:
  assumes "valid_slice (pre @ varint_bytes v @ rest)"
  shows "skip_varint (pre @ varint_bytes v @ rest) (int (length pre)) 0
    = Inr (int (length pre) + int (length (varint_bytes v)))"
  using varint_loop_at [OF assms, where 'a = 64]
  by (simp add: skip_varint_eq_loop [where acc = "0 :: u64"])

lemma skip_bytes_at:
  assumes "valid_slice (pre @ varint_bytes (of_nat (length bs)) @ bs @ rest)"
  shows "skip_bytes (pre @ varint_bytes (of_nat (length bs)) @ bs @ rest) (int (length pre))
    = Inr (int (length pre) + int (length (varint_bytes (of_nat (length bs)) @ bs)))"
proof -
  let ?p = "int (length pre) + int (length (varint_bytes (of_nat (length bs))))"
  have l: "?p + int (length bs) \<le> max_int" using assms by (simp add: valid_slice_def)
  then have n: "sint (of_nat (length bs) :: u64) = int (length bs)"
    by (intro sint_small) (simp add: max_int_def)
  moreover have "i64 (?p + int (length bs)) = ?p + int (length bs)"
    using l by (intro i64_id) (auto simp: max_int_def)
  ultimately show ?thesis
    using varint_loop_at [OF assms, where 'a = 64] by (simp add: skip_bytes_def n Let_def add.assoc)
qed

lemma field_bytes_key:
  "\<exists>payload. field_bytes f = varint_bytes (wire_key (field_number f) (wire_type f)) @ payload"
  by (cases f) auto

lemma wire_type_cases: "wire_type f < 8" "uint (wire_type f) \<noteq> 4"
  by (cases f; simp)+

lemma key_at:
  assumes "valid_slice (pre @ varint_bytes (wire_key n t) @ rest)" "t < 8"
  shows "\<exists>k. varint_loop (pre @ varint_bytes (wire_key n t) @ rest) (int (length pre)) 0 (0 :: u64)
      = (None, int (length pre) + int (length (varint_bytes (wire_key n t))), k)
    \<and> k AND 7 = t"
  using varint_loop_at [OF assms(1), where 'a = 64] wire_key_type [OF assms(2)] by simp

lemma valid_slice_add:
  assumes "valid_slice (pre @ ys @ rest)"
  shows "i64 (int (length pre) + int (length ys)) = int (length pre) + int (length ys)"
  using assms by (intro i64_id) (auto simp: valid_slice_def max_int_def)

lemma group_loop:
  assumes "\<And>f rest. f \<in> set fs \<Longrightarrow> valid_slice (field_bytes f @ rest) \<Longrightarrow>
      skipClusterpb (field_bytes f @ rest) = Inr (int (length (field_bytes f)))"
    and "valid_slice (pre @ concat (map field_bytes fs) @ varint_bytes (wire_key n 4) @ rest)"
  shows "skip_group (pre @ concat (map field_bytes fs) @ varint_bytes (wire_key n 4) @ rest) (int (length pre))
    = Inr (int (length (pre @ concat (map field_bytes fs) @ varint_bytes (wire_key n 4))))"
  using assms
proof (induction fs arbitrary: pre)
  case Nil
  obtain k where "varint_loop (pre @ varint_bytes (wire_key n 4) @ rest) (int (length pre)) 0 (0 :: u64)
      = (None, int (length pre) + int (length (varint_bytes (wire_key n 4))), k)" "k AND 7 = 4"
    using key_at [of pre n 4 rest] Nil.prems(2) by auto
  then show ?case by (simp add: skip_group.simps)
next
  case (Cons f fs)
  let ?tail = "concat (map field_bytes fs) @ varint_bytes (wire_key n 4) @ rest"
  have v: "valid_slice (pre @ field_bytes f @ ?tail)" using Cons.prems(2) by simp
  obtain p where p: "field_bytes f = varint_bytes (wire_key (field_number f) (wire_type f)) @ p"
    using field_bytes_key by blast
  obtain j k where loop: "varint_loop (pre @ field_bytes f @ ?tail) (int (length pre)) 0 (0 :: u64)
      = (None, j, k)" and k: "k AND 7 = wire_type f"
    using key_at [of pre "field_number f" "wire_type f" "p @ ?tail"] wire_type_cases v
    by (auto simp: p)
  have rest: "slice_from (pre @ field_bytes f @ ?tail) (int (length pre)) = Some (field_bytes f @ ?tail)"
    using v by (rule slice_from_append)
  have skip: "skipClusterpb (field_bytes f @ ?tail) = Inr (int (length (field_bytes f)))"
    using v by (intro Cons.prems(1)) (auto simp: valid_slice_def)
  have "skip_group (pre @ field_bytes f @ ?tail) (int (length pre))
      = skip_group (pre @ field_bytes f @ ?tail) (int (length (pre @ field_bytes f)))"
    using wire_type_cases
    by (subst skip_group.simps) (simp add: loop k rest skip valid_slice_add [OF v])
  also have "\<dots> = Inr (int (length ((pre @ field_bytes f) @ concat (map field_bytes fs)
      @ varint_bytes (wire_key n 4))))"
    using Cons.IH [of "pre @ field_bytes f"] Cons.prems(1) v by simp
  finally show ?case by simp
qed

text \<open>What follows the key decides the rest of the skip.\<close>

lemma skip_after_key:
  assumes "valid_slice (varint_bytes (wire_key n t) @ x)" "t < 8"
  defines "d \<equiv> varint_bytes (wire_key n t) @ x"
    and "i \<equiv> int (length (varint_bytes (wire_key n t)))"
  shows "skipClusterpb d =
    (if t = 0 then skip_varint d i 0 else if t = 1 then Inr (i64 (i + 8))
     else if t = 2 then skip_bytes d i else if t = 3 then skip_group d i
     else if t = 4 then Inr i else if t = 5 then Inr (i64 (i + 4))
     else Inl (Error (ErrIllegalWireType (uint t))))"
proof -
  obtain k where "varint_loop d 0 0 (0 :: u64) = (None, i, k)" "k AND 7 = t"
    using key_at [of "[]" n t x] assms by auto
  moreover have "0 < len d"
    using assms(1) by (simp add: d_def len_valid add_pos_nonneg)
  moreover have "uint t = 0 \<longleftrightarrow> t = 0" "uint t = 1 \<longleftrightarrow> t = 1" "uint t = 2 \<longleftrightarrow> t = 2"
    "uint t = 3 \<longleftrightarrow> t = 3" "uint t = 4 \<longleftrightarrow> t = 4" "uint t = 5 \<longleftrightarrow> t = 5"
    by (simp_all add: word_uint_eq_iff)
  ultimately show ?thesis by (simp add: skipClusterpb.simps Let_def)
qed

lemma skip_field:
  "valid_slice (field_bytes f @ rest) \<Longrightarrow>
   skipClusterpb (field_bytes f @ rest) = Inr (int (length (field_bytes f)))"
proof (induction f arbitrary: rest)
  case (VarintField n v)
  then show ?case
    using skip_after_key [of n 0 "varint_bytes v @ rest"]
      skip_varint_at [of "varint_bytes (wire_key n 0)" v rest] by simp
next
  case (Fixed64Field n v)
  then show ?case
    using skip_after_key [of n 1 "fixed64_bytes v @ rest"]
      valid_slice_add [of "varint_bytes (wire_key n 1)" "fixed64_bytes v" rest] by simp
next
  case (BytesField n bs)
  then show ?case
    using skip_after_key [of n 2 "varint_bytes (of_nat (length bs)) @ bs @ rest"]
      skip_bytes_at [of "varint_bytes (wire_key n 2)" bs rest] by simp
next
  case (GroupField n fs)
  then show ?case
    using skip_after_key [of n 3 "concat (map field_bytes fs) @ varint_bytes (wire_key n 4) @ rest"]
      group_loop [of fs "varint_bytes (wire_key n 3)" n rest] by simp
next
  case (Fixed32Field n v)
  then show ?case
    using skip_after_key [of n 5 "fixed32_bytes v @ rest"]
      valid_slice_add [of "varint_bytes (wire_key n 5)" "fixed32_bytes v" rest] by simp
qed

lemma sint_small_u32: "k < 2 ^ 31 \<Longrightarrow> sint (of_nat k :: u32) = int k"
  by (simp add: signed_of_nat signed_take_bit_int_eq_self_iff)

text \<open>The message loop steps over a field whose number is not one of the nine.\<close>

lemma reads_unknown:
  assumes "9 < field_number f" "field_number f < 2 ^ 29"
  shows "reads (field_bytes f) (\<lambda>m. m)"
proof (rule reads_step)
  obtain p where p: "field_bytes f = varint_bytes (wire_key (field_number f) (wire_type f)) @ p"
    using field_bytes_key by blast
  show "field_bytes f \<noteq> []" by (simp add: p)
  fix pre rest :: bytes and m
  assume v: "valid_slice (pre @ field_bytes f @ rest)"
  let ?d = "pre @ field_bytes f @ rest" and ?k = "wire_key (field_number f) (wire_type f)"
  have loop: "varint_loop ?d (int (length pre)) 0 (0 :: u64)
      = (None, int (length pre) + int (length (varint_bytes ?k)), ?k)"
    using varint_loop_at [of pre ?k "p @ rest", where 'a = 64] v by (simp add: p)
  have number: "drop_bit 3 ?k = field_number f"
    using assms(2) by (intro wire_key_number wire_type_cases) (rule less_trans, assumption, simp)
  have u: "unat (9 :: u64) < unat (field_number f)" "unat (field_number f) < unat ((2 :: u64) ^ 29)"
    using assms by (simp_all only: word_less_nat_alt)
  then have "sint (of_nat (unat (field_number f)) :: u32) = int (unat (field_number f))"
    by (intro sint_small_u32) simp
  then have "sint (ucast (field_number f) :: u32) = int (unat (field_number f))"
    by (simp only: of_nat_unat)
  moreover have "int 9 < int (unat (field_number f))" using u(1) by (simp only: of_nat_less_iff) simp
  ultimately have "9 < sint (ucast (field_number f) :: u32)" by simp
  moreover have "unknown_case ?d (int (length pre)) m
      = (None, int (length pre) + int (length (field_bytes f)), m)"
    using v valid_slice_add [OF v] skip_field [of f rest]
    by (simp add: unknown_case_def slice_from_append len_valid valid_slice_def)
  ultimately show "unmarshal_step ?d (int (length pre)) m
      = (None, int (length pre) + int (length (field_bytes f)), m)"
    using wire_type_cases(2) [of f]
    by (simp add: unmarshal_step_def loop Let_def number wire_key_type [OF wire_type_cases(1)]
        unmarshal_field_def)
qed

end
