(* ===== verification/ClusterpbTheorems.thy ===== *)
theory ClusterpbTheorems
  imports ClusterpbUnknown
begin

text \<open>
  The properties of the \<open>MemberStatus\<close> encoding: round trip, merging, exact writes, unknown
  fields, sizes, and the inputs that panic.
\<close>

lemma valid_encode: "int (Size m) \<le> max_int \<Longrightarrow> valid_slice (encode m)"
  by (simp add: valid_slice_def length_encode)

text \<open>
  C9 (round trip). \<open>Marshal\<close> never panics; it returns exactly \<open>Size m\<close> bytes, and
  \<open>Unmarshal\<close> of them into a fresh message gives \<open>m\<close> back with no error.
\<close>

theorem marshal_unmarshal_roundtrip:
  assumes "int (Size m) \<le> max_int"
  shows "\<exists>bs. Marshal m = Inr bs \<and> length bs = Size m \<and> Unmarshal bs (Reset m0) = (None, m)"
  using Unmarshal_reads [OF reads_encode valid_encode [OF assms], of empty_status]
  by (simp add: Marshal_eq_encode length_encode Reset_def)

theorem marshal_unmarshal_roundtrip_witness:
  "\<exists>bs. Marshal (empty_status\<lparr>Name := ''node1'', IsLeader := True, DBSize := 300\<rparr>) = Inr bs
     \<and> length bs = Size (empty_status\<lparr>Name := ''node1'', IsLeader := True, DBSize := 300\<rparr>)
     \<and> Unmarshal bs (Reset empty_status)
         = (None, empty_status\<lparr>Name := ''node1'', IsLeader := True, DBSize := 300\<rparr>)"
  by (rule marshal_unmarshal_roundtrip) code_simp

text \<open>
  C36 (functional). Decoding the concatenation of two encodings into a message \<open>m\<close> merges
  both into it, the later one over the earlier: a field keeps its old value exactly where
  the encoding left the field out. \<open>Unmarshal\<close> does not reset its receiver.
\<close>

theorem unmarshal_merges_concatenation:
  assumes "int (Size a) + int (Size b) \<le> max_int"
  shows "Unmarshal (encode a @ encode b) m = (None, merge_status b (merge_status a m))"
  using assms
  by (intro Unmarshal_reads reads_append reads_encode) (simp add: valid_slice_def length_encode)

theorem unmarshal_merges_concatenation_witness:
  "Unmarshal (encode (empty_status\<lparr>Name := ''a'', Hash := 7\<rparr>) @ encode (empty_status\<lparr>Name := ''b''\<rparr>))
     empty_status = (None, empty_status\<lparr>Name := ''b'', Hash := 7\<rparr>)"
proof -
  have "int (Size (empty_status\<lparr>Name := ''a'', Hash := 7\<rparr>)) + int (Size (empty_status\<lparr>Name := ''b''\<rparr>))
      \<le> max_int"
    by code_simp
  from unmarshal_merges_concatenation [OF this, of empty_status] show ?thesis
    by (simp add: merge_status_def empty_status_def)
qed

text \<open>
  C37 (refinement). \<open>MarshalTo\<close>, which stores byte by byte at a running index, implements the
  append-only specification \<open>encode\<close>: into any slice with room it writes exactly
  \<open>encode m\<close> at the front, leaves the rest as it was, and returns \<open>Size m\<close>.
\<close>

theorem marshal_to_implements_encode:
  assumes "Size m \<le> length dAtA"
  shows "MarshalTo m dAtA = Some (encode m @ drop (Size m) dAtA, int (Size m))
    \<and> length (encode m) = Size m"
  using assms by (simp add: MarshalTo_fits length_encode)

theorem marshal_to_implements_encode_witness:
  "MarshalTo (empty_status\<lparr>ID := ''8e'', IsLeader := True\<rparr>) [9, 9, 9, 9, 9, 9, 9]
     = Some ([0x12, 2, 0x38, 0x65, 0x20, 1, 9], 6)"
proof -
  have "Size (empty_status\<lparr>ID := ''8e'', IsLeader := True\<rparr>) \<le> length [9, 9, 9, 9, 9, 9, 9 :: u8]"
    by code_simp
  from marshal_to_implements_encode [OF this]
  have "MarshalTo (empty_status\<lparr>ID := ''8e'', IsLeader := True\<rparr>) [9, 9, 9, 9, 9, 9, 9]
      = Some (encode (empty_status\<lparr>ID := ''8e'', IsLeader := True\<rparr>)
          @ drop (Size (empty_status\<lparr>ID := ''8e'', IsLeader := True\<rparr>)) [9, 9, 9, 9, 9, 9, 9],
        int (Size (empty_status\<lparr>ID := ''8e'', IsLeader := True\<rparr>)))"
    by simp
  also have "encode (empty_status\<lparr>ID := ''8e'', IsLeader := True\<rparr>) = [0x12, 2, 0x38, 0x65, 0x20, 1]"
    by code_simp
  also have "Size (empty_status\<lparr>ID := ''8e'', IsLeader := True\<rparr>) = 6" by code_simp
  finally show ?thesis by simp
qed

text \<open>
  C18 (functional). \<open>skipClusterpb\<close> terminates on every input (it is a total function), and on
  a well-formed field, groups nested to any depth included, it returns exactly the number
  of bytes the field occupies, whatever follows.
\<close>

theorem skip_consumes_one_field:
  assumes "valid_slice (field_bytes f @ rest)"
  shows "skipClusterpb (field_bytes f @ rest) = Inr (int (length (field_bytes f)))"
  by (rule skip_field [OF assms])

theorem skip_consumes_one_field_witness:
  "skipClusterpb (field_bytes (GroupField 12 [VarintField 1 300, GroupField 2 [BytesField 3 [7, 7]]]) @ [1, 2])
     = Inr (int (length (field_bytes (GroupField 12 [VarintField 1 300, GroupField 2 [BytesField 3 [7, 7]]]))))"
  by (rule skip_consumes_one_field) code_simp

text \<open>
  C35 (functional). Forward compatibility: a well-formed field with an unknown number (10 up
  to the protobuf limit), placed between two encodings, changes nothing in what is decoded.
\<close>

theorem unmarshal_ignores_unknown_field:
  assumes "9 < field_number f" "field_number f < 2 ^ 29"
    and "valid_slice (encode a @ field_bytes f @ encode b)"
  shows "Unmarshal (encode a @ field_bytes f @ encode b) m = (None, merge_status b (merge_status a m))"
  by (rule Unmarshal_reads [OF reads_append [OF reads_encode
        reads_append [OF reads_unknown [OF assms(1,2)] reads_encode]] assms(3)])

theorem unmarshal_ignores_unknown_field_witness:
  "Unmarshal (encode (empty_status\<lparr>Name := ''a''\<rparr>) @ field_bytes (GroupField 17 [VarintField 1 5])
      @ encode (empty_status\<lparr>Hash := 3\<rparr>)) empty_status
     = (None, merge_status (empty_status\<lparr>Hash := 3\<rparr>) (merge_status (empty_status\<lparr>Name := ''a''\<rparr>) empty_status))"
  by (rule unmarshal_ignores_unknown_field) code_simp+

text \<open>
  C38 (safety). No input of fewer than ten bytes makes \<open>Unmarshal\<close> panic, whatever message it
  is called on: it returns, with or without an error.
\<close>

theorem unmarshal_short_input_no_panic:
  assumes "length dAtA < 10"
  shows "fst (Unmarshal dAtA m) \<noteq> Some (Panic s)"
  unfolding Unmarshal_def
  using assms len_bounds(2) [of dAtA] by (intro unmarshal_loop_short) auto

theorem unmarshal_short_input_no_panic_witness:
  "fst (Unmarshal [0x0A, 0xFF, 0xFF, 0xFF, 0xFF, 0xFF, 0xFF, 0xFF, 0x7F] empty_status)
     \<noteq> Some (Panic slice_panic)"
  by (rule unmarshal_short_input_no_panic) simp

text \<open>
  C39 (error). Ten bytes are enough to crash the decoder: a \<open>Name\<close> field whose length prefix
  \<open>L\<close> is a non-negative \<open>int\<close> but carries the end index past \<open>2 ^ 63\<close> wraps
  \<open>postIndex\<close> to a negative number, passes the check \<open>postIndex > l\<close> and panics in the slice
  expression, where a truncated field is meant to give \<open>io.ErrUnexpectedEOF\<close>.
\<close>

theorem unmarshal_length_overflow_panics:
  assumes "0 \<le> sint L" "2 ^ 63 \<le> 1 + int (sovClusterpb L) + sint L"
    and "valid_slice (0x0a # varint_bytes L @ rest)"
  shows "Unmarshal (0x0a # varint_bytes L @ rest) m = (Some (Panic slice_panic), m)"
proof -
  have "unmarshal_step ([] @ 0x0a # varint_bytes L @ rest) (int (length ([] :: bytes))) m
      = (Some (Panic slice_panic), 1, m)"
    using assms read_string_wraps [of "[0x0a]" L rest]
    by (subst step_after_tag [where fn = 1 and wt = 2]) (simp_all add: unmarshal_field_def string_case_def)
  moreover have "0 < len (0x0a # varint_bytes L @ rest)" using assms(3) by (simp add: len_valid)
  ultimately show ?thesis by (simp add: Unmarshal_def unmarshal_loop.simps)
qed

theorem unmarshal_length_overflow_panics_witness:
  "Unmarshal [0x0A, 0xFF, 0xFF, 0xFF, 0xFF, 0xFF, 0xFF, 0xFF, 0xFF, 0x7F] empty_status
     = (Some (Panic slice_panic), empty_status)"
proof -
  have h: "0 \<le> sint (0x7FFFFFFFFFFFFFFF :: u64)"
    "2 ^ 63 \<le> 1 + int (sovClusterpb 0x7FFFFFFFFFFFFFFF) + sint (0x7FFFFFFFFFFFFFFF :: u64)"
    "valid_slice (0x0a # varint_bytes 0x7FFFFFFFFFFFFFFF @ [])"
    by code_simp+
  have e: "varint_bytes 0x7FFFFFFFFFFFFFFF = [0xFF, 0xFF, 0xFF, 0xFF, 0xFF, 0xFF, 0xFF, 0xFF, 0x7F]"
    by code_simp
  show ?thesis
    using unmarshal_length_overflow_panics [OF h, of empty_status] by (simp only: e append_Nil2)
qed

lemma sov_upper: "unat v < 2 ^ (7 * sovClusterpb v)"
proof (induction v rule: sovClusterpb.induct)
  case (1 v)
  show ?case
  proof (cases "drop_bit 7 v = 0")
    case True
    then have "v < 128" by (simp only: drop_bit_7_eq_0_iff)
    then show ?thesis using True by (simp add: sovClusterpb.simps [of v] word_less_nat_alt)
  next
    case False
    let ?n = "sovClusterpb (drop_bit 7 v)"
    have "unat v div 128 < 2 ^ (7 * ?n)"
      using "1.IH" [OF refl False] by (simp add: unat_drop_bit_7)
    then have "unat v < 128 * 2 ^ (7 * ?n)" by (simp add: div_less_iff_less_mult mult.commute)
    then show ?thesis using False by (simp add: sovClusterpb.simps [of v] Let_def power_add)
  qed
qed

lemma sov_least:
  "0 < k \<Longrightarrow> unat v < 2 ^ (7 * k) \<Longrightarrow> sovClusterpb v \<le> k"
proof (induction v arbitrary: k rule: sovClusterpb.induct)
  case (1 v)
  show ?case
  proof (cases "drop_bit 7 v = 0")
    case True
    then show ?thesis using "1.prems"(1) by (simp add: sovClusterpb.simps [of v])
  next
    case False
    then have "128 \<le> unat v"
      using drop_bit_7_eq_0_iff [of v] by (simp add: word_less_nat_alt)
    with "1.prems"(2) have "(2::nat) ^ 7 < 2 ^ (7 * k)" by simp
    then have "7 < 7 * k" by (subst (asm) power_strict_increasing_iff) simp_all
    then obtain k' where k: "k = Suc k'" "0 < k'" by (cases k) auto
    have "unat (drop_bit 7 v) < 2 ^ (7 * k')"
      using "1.prems"(2) by (simp add: k unat_drop_bit_7 div_less_iff_less_mult power_add mult.commute)
    then have "sovClusterpb (drop_bit 7 v) \<le> k'" using "1.IH" [OF refl False] k(2) by simp
    then show ?thesis using False by (simp add: k sovClusterpb.simps [of v] Let_def)
  qed
qed

lemma sov_pos: "1 \<le> sovClusterpb v"
  by (simp add: sovClusterpb.simps [of v] Let_def)

lemma encodeVarint_None_iff:
  assumes "0 \<le> i"
  shows "encodeVarintClusterpb d i v = None \<longleftrightarrow> int (length d) < i + int (sovClusterpb v)"
  using store_all_fits [OF assms, of "varint_bytes v" d]
    store_all_overflows [OF assms varint_bytes_not_Nil, of d v]
  by (cases "i + int (sovClusterpb v) \<le> int (length d)")
    (simp_all add: encodeVarint_eq_store_all length_varint_bytes)

text \<open>
  C40 (bounds). \<open>sovClusterpb v\<close>, the size that \<open>Size\<close> and the writer rely on, is the least
  number of seven-bit groups that hold \<open>v\<close>, between 1 and 10; the writer panics exactly
  when that many bytes do not fit behind its offset.
\<close>

theorem varint_size_is_minimal:
  assumes "0 < k" "unat v < 2 ^ (7 * k)" "0 \<le> i"
  shows "1 \<le> sovClusterpb v \<and> sovClusterpb v \<le> 10 \<and> unat v < 2 ^ (7 * sovClusterpb v)
    \<and> sovClusterpb v \<le> k
    \<and> (encodeVarintClusterpb d i v = None \<longleftrightarrow> int (length d) < i + int (sovClusterpb v))"
proof -
  have "unat v < 2 ^ (7 * 10)"
    using unsigned_less [of v, where 'a = nat] by (rule less_trans) simp
  then show ?thesis
    using assms sov_upper sov_pos sov_least [of 10 v] sov_least [of k v] encodeVarint_None_iff [of i d v]
    by simp
qed

theorem varint_size_is_minimal_witness:
  "sovClusterpb 300 \<le> 2 \<and> encodeVarintClusterpb [0, 0] 1 300 = None"
proof -
  have h: "0 < (2 :: nat)" "unat (300 :: u64) < 2 ^ (7 * 2)" "0 \<le> (1 :: int)" by simp_all
  have "sovClusterpb 300 = 2" by code_simp
  then show ?thesis using varint_size_is_minimal [OF h, of "[0, 0]"] by simp
qed

end
