(* ===== verification/GoUrl.thy ===== *)
theory GoUrl
  imports GoStrings
begin

text \<open>
  The parts of Go's \<open>net/url\<close> (Go 1.10) and \<open>path/filepath\<close> that the cluster package uses.
  A URL built by the cluster has a scheme and a host only, so \<open>URL.String\<close> is modelled for
  those; \<open>url.Parse\<close> is modelled on every string, for the two results the code reads from
  it: whether it fails, and the host. The model keeps every test that can make it fail: the
  scheme, the first path segment, the authority, the user information, the host, the path
  and the fragment.
\<close>

record url =
  Scheme :: string
  Host :: string

section \<open>Escaping\<close>

datatype encoding = EncodePath | EncodeUserPassword | EncodeHost | EncodeZone | EncodeFragment

definition is_alnum :: "char \<Rightarrow> bool" where
  "is_alnum c = (is_lower c \<or> is_upper c \<or> is_digit c)"

definition is_hex :: "char \<Rightarrow> bool" where
  "is_hex c = (is_digit c \<or> (97 \<le> code c \<and> code c \<le> 102) \<or> (65 \<le> code c \<and> code c \<le> 70))"

definition unhex :: "char \<Rightarrow> nat" where
  "unhex c = (if is_digit c then code c - 48 else if 97 \<le> code c \<and> code c \<le> 102 then code c - 87
              else if 65 \<le> code c \<and> code c \<le> 70 then code c - 55 else 0)"

text \<open>\<open>shouldEscape(c, encodeHost)\<close>, which is also \<open>shouldEscape(c, encodeZone)\<close>.\<close>

definition should_escape_host :: "char \<Rightarrow> bool" where
  "should_escape_host c = (\<not> (is_alnum c \<or> c \<in> set ''!$&()*+,;=:[]<>-_.~''
     \<or> code c = 39 \<or> code c = 34))"

definition upper_hex :: "nat \<Rightarrow> char" where
  "upper_hex n = (if n < 10 then char_of (48 + n) else char_of (55 + n))"

definition escape_host :: "string \<Rightarrow> string" where
  "escape_host s = concat (map (\<lambda>c. if should_escape_host c
     then [CHR ''%'', upper_hex (code c div 16), upper_hex (code c mod 16)] else [c]) s)"

text \<open>\<open>unescape(s, mode)\<close>, \<open>None\<close> for its errors. \<open>encodeQueryComponent\<close>, the mode that
  reads a plus as a space, is not one of the modes used here.\<close>

definition bad_escape :: "encoding \<Rightarrow> char \<Rightarrow> char \<Rightarrow> bool" where
  "bad_escape mode a b =
     (\<not> is_hex a \<or> \<not> is_hex b \<or>
      (mode = EncodeHost \<and> unhex a < 8 \<and> [a, b] \<noteq> ''25'') \<or>
      (mode = EncodeZone \<and> [a, b] \<noteq> ''25'' \<and> 16 * unhex a + unhex b \<noteq> 32
        \<and> should_escape_host (char_of (16 * unhex a + unhex b))))"

definition bad_plain :: "encoding \<Rightarrow> char \<Rightarrow> bool" where
  "bad_plain mode c = ((mode = EncodeHost \<or> mode = EncodeZone) \<and> code c < 128 \<and> should_escape_host c)"

fun unescape :: "encoding \<Rightarrow> string \<Rightarrow> string option" where
  "unescape mode [] = Some []"
| "unescape mode (c # cs) =
     (if c = CHR ''%'' then
        (case cs of
           a # b # rest \<Rightarrow>
             if bad_escape mode a b then None
             else map_option ((#) (char_of (16 * unhex a + unhex b))) (unescape mode rest)
         | _ \<Rightarrow> None)
      else if bad_plain mode c then None
      else map_option ((#) c) (unescape mode cs))"

definition parsed :: "'a option \<Rightarrow> bool" where
  "parsed x = (x \<noteq> None)"

section \<open>Splitting\<close>

definition before :: "char \<Rightarrow> string \<Rightarrow> string" where
  "before c s = takeWhile (\<lambda>x. x \<noteq> c) s"

definition from_first :: "char \<Rightarrow> string \<Rightarrow> string" where
  "from_first c s = dropWhile (\<lambda>x. x \<noteq> c) s"

definition after :: "char \<Rightarrow> string \<Rightarrow> string" where
  "after c s = tl (from_first c s)"

text \<open>What follows, and what precedes, the last occurrence of \<open>c\<close>.\<close>

definition after_last :: "char \<Rightarrow> string \<Rightarrow> string" where
  "after_last c s = rev (before c (rev s))"

definition before_last :: "char \<Rightarrow> string \<Rightarrow> string" where
  "before_last c s = rev (after c (rev s))"

text \<open>The first occurrence of a substring: what precedes it, and the rest from it on.\<close>

fun split_at_sub :: "string \<Rightarrow> string \<Rightarrow> (string \<times> string) option" where
  "split_at_sub [] sub = (if sub = [] then Some ([], []) else None)"
| "split_at_sub (c # cs) sub =
     (if has_prefix (c # cs) sub then Some ([], c # cs)
      else map_option (\<lambda>(a, b). (c # a, b)) (split_at_sub cs sub))"

section \<open>Parsing\<close>

text \<open>\<open>getscheme\<close>: \<open>None\<close> when a colon comes first, else the scheme and the rest.\<close>

fun getscheme_from :: "string \<Rightarrow> string \<Rightarrow> string \<Rightarrow> (string \<times> string) option" where
  "getscheme_from raw acc [] = Some ([], raw)"
| "getscheme_from raw acc (c # cs) =
     (if is_lower c \<or> is_upper c then getscheme_from raw (acc @ [c]) cs
      else if is_digit c \<or> c \<in> set ''+-.'' then
        (if acc = [] then Some ([], raw) else getscheme_from raw (acc @ [c]) cs)
      else if c = CHR '':'' then (if acc = [] then None else Some (acc, cs))
      else Some ([], raw))"

definition getscheme :: "string \<Rightarrow> (string \<times> string) option" where
  "getscheme raw = getscheme_from raw [] raw"

definition valid_optional_port :: "string \<Rightarrow> bool" where
  "valid_optional_port p = (case p of [] \<Rightarrow> True | c # cs \<Rightarrow> c = CHR '':'' \<and> list_all is_digit cs)"

definition parse_host :: "string \<Rightarrow> string option" where
  "parse_host host =
     (if has_prefix host ''['' then
        (if CHR '']'' \<notin> set host then None
         else if \<not> valid_optional_port (after_last CHR '']'' host) then None
         else (case split_at_sub (before_last CHR '']'' host) ''%25'' of
                 None \<Rightarrow> unescape EncodeHost host
               | Some (h1, h2) \<Rightarrow>
                   (case (unescape EncodeHost h1, unescape EncodeZone h2,
                          unescape EncodeHost (CHR '']'' # after_last CHR '']'' host)) of
                      (Some a, Some b, Some c) \<Rightarrow> Some (a @ b @ c)
                    | _ \<Rightarrow> None)))
      else unescape EncodeHost host)"

definition valid_userinfo :: "string \<Rightarrow> bool" where
  "valid_userinfo s = list_all (\<lambda>c. is_alnum c \<or> c \<in> set ''-._:~!$&()*+,;=%@'' \<or> code c = 39) s"

definition parse_authority :: "string \<Rightarrow> string option" where
  "parse_authority authority =
     (if CHR ''@'' \<notin> set authority then parse_host authority
      else (case parse_host (after_last CHR ''@'' authority) of
              None \<Rightarrow> None
            | Some host \<Rightarrow>
                let userinfo = before_last CHR ''@'' authority
                in if \<not> valid_userinfo userinfo then None
                   else if CHR '':'' \<notin> set userinfo then
                     (if parsed (unescape EncodeUserPassword userinfo) then Some host else None)
                   else if parsed (unescape EncodeUserPassword (before CHR '':'' userinfo))
                        \<and> parsed (unescape EncodeUserPassword (after CHR '':'' userinfo))
                     then Some host else None))"

text \<open>\<open>parse(rawurl, false)\<close>: \<open>None\<close> is an error, else the scheme and the host. Both ways the
  code cuts the query off leave what precedes the first question mark.\<close>

definition parse_no_frag :: "string \<Rightarrow> url option" where
  "parse_no_frag rawurl =
     (if rawurl = ''*'' then Some \<lparr>Scheme = [], Host = []\<rparr>
      else case getscheme rawurl of None \<Rightarrow> None
      | Some (scheme0, rest0) \<Rightarrow>
          let scheme = to_lower scheme0; rest = before CHR ''?'' rest0
          in if \<not> has_prefix rest ''/'' \<and> scheme \<noteq> [] then Some \<lparr>Scheme = scheme, Host = []\<rparr>
             else if \<not> has_prefix rest ''/'' \<and> CHR '':'' \<in> set (before CHR ''/'' rest) then None
             else if (scheme \<noteq> [] \<or> \<not> has_prefix rest ''///'') \<and> has_prefix rest ''//'' then
               (case parse_authority (before CHR ''/'' (drop 2 rest)) of
                  None \<Rightarrow> None
                | Some host \<Rightarrow>
                    if parsed (unescape EncodePath (from_first CHR ''/'' (drop 2 rest)))
                    then Some \<lparr>Scheme = scheme, Host = host\<rparr> else None)
             else if parsed (unescape EncodePath rest) then Some \<lparr>Scheme = scheme, Host = []\<rparr>
             else None)"

definition url_parse :: "string \<Rightarrow> url option" where
  "url_parse rawurl =
     (case parse_no_frag (before CHR ''#'' rawurl) of
        None \<Rightarrow> None
      | Some u \<Rightarrow> if parsed (unescape EncodeFragment (after CHR ''#'' rawurl)) then Some u else None)"

text \<open>\<open>URL.String\<close> for a URL with a scheme and a host only.\<close>

definition url_string :: "url \<Rightarrow> string" where
  "url_string u =
     (if Scheme u = [] then [] else Scheme u @ '':'') @
     (if Host u = [] then [] else ''//'' @ escape_host (Host u))"

section \<open>Hosts of plain characters\<close>

text \<open>Characters that are themselves in every part of a URL: the host names and ports the
  cluster uses are made of these.\<close>

definition plain_char :: "char \<Rightarrow> bool" where
  "plain_char c = (is_alnum c \<or> c = CHR '':'' \<or> c = CHR ''.'' \<or> c = CHR ''-'')"

definition plain_host :: "string \<Rightarrow> bool" where
  "plain_host s = (s \<noteq> [] \<and> list_all plain_char s)"

lemma plain_char_ok:
  assumes "plain_char c"
  shows "\<not> should_escape_host c" "c \<notin> set ''%?#/@[''"
  using assms by (auto simp: plain_char_def should_escape_host_def is_alnum_def is_lower_def
      is_upper_def is_digit_def code_def)

lemma escape_plain: "list_all plain_char s \<Longrightarrow> escape_host s = s"
  by (induction s) (auto simp: escape_host_def plain_char_ok)

lemma unescape_plain: "list_all plain_char s \<Longrightarrow> unescape mode s = Some s"
proof (induction s)
  case (Cons c cs)
  then show ?case using plain_char_ok [of c] by (auto simp: bad_plain_def)
qed simp

lemma before_id:
  assumes "c \<notin> set s" shows "before c s = s" "after c s = []"
proof -
  have "takeWhile (\<lambda>x. x \<noteq> c) s = s" "dropWhile (\<lambda>x. x \<noteq> c) s = []"
    using assms by (auto simp: takeWhile_eq_all_conv dropWhile_eq_Nil_conv)
  then show "before c s = s" "after c s = []" by (simp_all only: before_def after_def from_first_def list.sel)
qed

lemma before_plain:
  "list_all plain_char s \<Longrightarrow> c \<in> set ''%?#/@['' \<Longrightarrow> before c s = s"
  "list_all plain_char s \<Longrightarrow> c \<in> set ''%?#/@['' \<Longrightarrow> from_first c s = []"
  using plain_char_ok by (fastforce simp: before_def from_first_def list_all_iff)+

lemma after_plain: "list_all plain_char s \<Longrightarrow> c \<in> set ''%?#/@['' \<Longrightarrow> after c s = []"
  by (simp add: after_def before_plain)

lemma parse_authority_plain:
  assumes "plain_host h" shows "parse_authority h = Some h"
proof -
  have "CHR ''@'' \<notin> set h" "\<not> has_prefix h ''[''"
    using assms plain_char_ok by (fastforce simp: plain_host_def list_all_iff neq_Nil_conv)+
  with assms show ?thesis
    by (simp add: parse_authority_def parse_host_def unescape_plain plain_host_def)
qed

text \<open>Parsing what \<open>URL.String\<close> printed gives the host back.\<close>

lemma parse_scheme_host:
  assumes h: "plain_host h" and s: "s \<in> {''http'', ''https''}"
  shows "url_parse (url_string \<lparr>Scheme = s, Host = h\<rparr>) = Some \<lparr>Scheme = s, Host = h\<rparr>"
proof -
  have l: "list_all plain_char h" and ne: "h \<noteq> []" using h by (auto simp: plain_host_def)
  obtain c t where hc: "h = c # t" using ne by (cases h) auto
  have c: "c \<noteq> CHR ''/''" using plain_char_ok(2) [of c] l hc by auto
  have str: "url_string \<lparr>Scheme = s, Host = h\<rparr> = s @ ''://'' @ h"
    using s ne by (auto simp: url_string_def escape_plain l)
  have frag: "before CHR ''#'' (s @ ''://'' @ h) = s @ ''://'' @ h" "after CHR ''#'' (s @ ''://'' @ h) = []"
    using s plain_char_ok l by (fastforce simp: list_all_iff intro!: before_id)+
  have sch: "getscheme (s @ ''://'' @ h) = Some (s, ''//'' @ h)"
    using s by (auto simp: getscheme_def is_lower_def is_upper_def is_digit_def code_def)
  have low: "to_lower s = s" using s by (auto simp: to_lower_def lower_char_def code_def)
  have q: "before CHR ''?'' (''//'' @ h) = ''//'' @ h"
    using before_plain [OF l, of "CHR ''?''"] by (auto simp: before_def)
  have p: "before CHR ''/'' h = h" "from_first CHR ''/'' h = []" by (simp_all add: before_plain l)
  have np: "\<not> has_prefix (''//'' @ h) ''///''" using c hc by simp
  have no_star: "s @ ''://'' @ h \<noteq> ''*''" using s by auto
  have d: "drop 2 (''//'' @ h) = h" "has_prefix (''//'' @ h) ''/''" "has_prefix (''//'' @ h) ''//''"
    by simp_all
  have "parse_no_frag (s @ ''://'' @ h) = Some \<lparr>Scheme = s, Host = h\<rparr>"
    by (simp only: parse_no_frag_def no_star sch low Let_def q d p np parse_authority_plain [OF h]
        option.case prod.case if_False if_True not_True_eq_False not_False_eq_True simp_thms
        unescape.simps parsed_def) simp
  then show ?thesis by (simp add: str url_parse_def frag parsed_def del: append.simps)
qed

section \<open>path/filepath\<close>

text \<open>\<open>filepath.Clean\<close> and \<open>filepath.Join\<close> on Unix. \<open>clean_step\<close> treats one path element.\<close>

definition clean_step :: "bool \<Rightarrow> string list \<Rightarrow> string \<Rightarrow> string list" where
  "clean_step rooted stack e =
     (if e = [] \<or> e = ''.'' then stack
      else if e = ''..'' then
        (if stack \<noteq> [] \<and> last stack \<noteq> ''..'' then butlast stack
         else if rooted then stack else stack @ [''..''])
      else stack @ [e])"

definition clean :: "string \<Rightarrow> string" where
  "clean path =
     (if path = [] then ''.''
      else let rooted = has_prefix path ''/'';
               out = (if rooted then ''/'' else [])
                       @ join (foldl (clean_step rooted) [] (split_char CHR ''/'' path)) ''/''
           in if out = [] then ''.'' else out)"

definition filepath_join :: "string list \<Rightarrow> string" where
  "filepath_join elems =
     (case dropWhile (\<lambda>e. e = []) elems of [] \<Rightarrow> [] | es \<Rightarrow> clean (join es ''/''))"

end
