(* ===== verification/ClusterTypes.thy ===== *)
theory ClusterTypes
  imports Clusterpb GoUrl
begin

text \<open>
  The data of package \<open>cluster\<close>: \<open>Config\<close>, \<open>Member\<close>, \<open>Cluster\<close>, the configuration of an embedded
  etcd server, and the outside world as the package sees it.

  A member's pointer to its cluster is left out: every member belongs to the one cluster
  whose \<open>Members\<close> it is in, and the methods that read the cluster take it as an argument. The
  pointer to an embedded server is a number, \<open>None\<close> being \<open>nil\<close>.

  What the package calls outside itself (\<open>embed\<close>, \<open>clientv3\<close>, gRPC, the clock, the file
  system) is the record \<open>env\<close>: one field per function, with its answer. An operation takes
  the environment it runs in, so two calls may get different answers. What an operation does
  to the outside world is the list of \<open>event\<close>s it returns, in order.
\<close>

type_synonym go_error = string
type_synonym time = int
type_synonym duration = int
type_synonym etcd = nat
type_synonym client = nat

section \<open>Configuration\<close>

record tls_info =
  CertFile :: string
  KeyFile :: string

definition TLS_Empty :: "tls_info \<Rightarrow> bool" where
  "TLS_Empty t = (CertFile t = [] \<and> KeyFile t = [])"

record config =
  Config_Size :: int
  RootDir :: string
  RootPort :: int
  EmbeddedClient :: bool
  PeerTLSInfo :: tls_info
  PeerAutoTLS :: bool
  ClientTLSInfo :: tls_info
  ClientAutoTLS :: bool
  DialTimeout :: duration

definition PeerScheme :: "config \<Rightarrow> string" where
  "PeerScheme c = (if TLS_Empty (PeerTLSInfo c) \<and> \<not> PeerAutoTLS c then ''http'' else ''https'')"

definition ClientScheme :: "config \<Rightarrow> string" where
  "ClientScheme c = (if TLS_Empty (ClientTLSInfo c) \<and> \<not> ClientAutoTLS c then ''http'' else ''https'')"

definition defaultDialTimeout :: duration where
  "defaultDialTimeout = 1000000000"

record embed_config =
  CfgName :: string
  Dir :: string
  WalDir :: string
  ClusterState :: string
  ACUrls :: "url list"
  LCUrls :: "url list"
  APUrls :: "url list"
  LPUrls :: "url list"
  CfgClientAutoTLS :: bool
  CfgClientTLSInfo :: tls_info
  CfgPeerAutoTLS :: bool
  CfgPeerTLSInfo :: tls_info
  AutoCompactionMode :: string
  AutoCompactionRetention :: string
  Logger :: string
  LogOutputs :: "string list"
  InitialCluster :: string

section \<open>State\<close>

record member =
  cfg :: embed_config
  srv :: "etcd option"
  stoppedStartedAt :: time
  status :: MemberStatus

record cluster =
  embeddedClient :: bool
  Started :: time
  csize :: int
  LeadIdx :: nat
  Members :: "member list"
  clientHostToIndex :: "string \<rightharpoonup> nat"
  clientDialTimeout :: duration
  basePort :: int
  rootDir :: string
  ccfg :: config
  stopcClosed :: bool
  rootCanceled :: bool

section \<open>The outside world\<close>

text \<open>The case of a \<open>select\<close> over a server's channels that fires: ready to serve, a value (or
  the closing) of the error channel, the stop notification.\<close>

datatype server_event = ReadyNotify | ErrChan "go_error option" | StopNotify

record client_config =
  Endpoints :: "string list"
  ConfigDialTimeout :: duration
  ConfigTLS :: "nat option"

record status_response =
  MemberId :: u64
  RespLeader :: u64
  DbSize :: int

text \<open>\<open>start_etcd\<close> is \<open>embed.StartEtcd\<close>: the server, and the configuration its \<open>Config()\<close>, which
  the code calls right after, returns.\<close>

record env =
  start_etcd :: "embed_config \<Rightarrow> go_error + (etcd \<times> embed_config)"
  etcd_id :: "etcd \<Rightarrow> u64"
  started_event :: "etcd \<Rightarrow> server_event"
  stopped_event :: "etcd \<Rightarrow> server_event"
  clock :: "nat \<Rightarrow> time"
  humanize_time :: "time \<Rightarrow> string"
  humanize_bytes :: "u64 \<Rightarrow> string"
  client_tls :: "tls_info \<Rightarrow> go_error + nat"
  v3client_New :: "etcd \<Rightarrow> client"
  clientv3_New :: "client_config \<Rightarrow> go_error + client"
  rpc_status :: "client \<Rightarrow> string \<Rightarrow> go_error + status_response"
  grpc_dial :: "string \<Rightarrow> nat option \<Rightarrow> go_error option"
  rpc_hash :: "string \<Rightarrow> go_error + u32"
  rpc_member_add :: "client \<Rightarrow> string list \<Rightarrow> go_error option"
  rpc_member_remove :: "client \<Rightarrow> u64 \<Rightarrow> go_error option"
  new_config :: embed_config
  default_host :: "go_error + string"
  os_stat :: "string \<Rightarrow> go_error option"
  os_mkdir_all :: "string \<Rightarrow> go_error option"
  os_write_file :: "string \<Rightarrow> go_error option"
  os_remove :: "string \<Rightarrow> go_error option"

datatype event =
    StartEtcd embed_config
  | CloseEtcd etcd
  | CloseClient client
  | MemberAdd "string list"
  | MemberRemove u64
  | RemoveAll string
  | MkdirAll string
  | WriteFile string
  | RemoveFile string

section \<open>Files and hosts\<close>

definition existFileOrDir :: "env \<Rightarrow> string \<Rightarrow> bool" where
  "existFileOrDir E name = (os_stat E name = None)"

definition dirWritable :: "env \<Rightarrow> string \<Rightarrow> event list \<times> go_error option" where
  "dirWritable E dir =
     (let f = filepath_join [dir, ''.touch'']
      in case os_write_file E f of
           Some e \<Rightarrow> ([WriteFile f], Some e)
         | None \<Rightarrow> ([WriteFile f, RemoveFile f], os_remove E f))"

definition mkdirAll :: "env \<Rightarrow> string \<Rightarrow> event list \<times> go_error option" where
  "mkdirAll E dir =
     (case os_mkdir_all E dir of
        Some e \<Rightarrow> ([MkdirAll dir], Some e)
      | None \<Rightarrow> (case dirWritable E dir of (evs, r) \<Rightarrow> (MkdirAll dir # evs, r)))"

definition getHost :: "string \<Rightarrow> string" where
  "getHost ep =
     (case url_parse ep of
        None \<Rightarrow> ep
      | Some u \<Rightarrow> if contains ep ''://'' then Host u else ep)"

lemma getHost_no_scheme: "\<not> contains ep ''://'' \<Longrightarrow> getHost ep = ep"
  by (simp add: getHost_def split: option.splits)

lemma contains_in_set: "contains s sub \<Longrightarrow> set sub \<subseteq> set s"
  by (auto simp: contains_iff)

lemma getHost_plain: "plain_host h \<Longrightarrow> getHost h = h"
proof (rule getHost_no_scheme)
  assume "plain_host h"
  then have "CHR ''/'' \<notin> set h" using plain_char_ok by (fastforce simp: plain_host_def list_all_iff)
  then show "\<not> contains h ''://''" using contains_in_set [of h "''://''"] by auto
qed

lemma getHost_url_string:
  assumes "plain_host h" "s \<in> {''http'', ''https''}"
  shows "getHost (url_string \<lparr>Scheme = s, Host = h\<rparr>) = h"
proof -
  have "url_string \<lparr>Scheme = s, Host = h\<rparr> = s @ ''://'' @ h"
    using assms by (auto simp: url_string_def escape_plain plain_host_def)
  then have "contains (url_string \<lparr>Scheme = s, Host = h\<rparr>) ''://''" by (metis contains_mid)
  then show ?thesis using parse_scheme_host [OF assms] by (simp add: getHost_def)
qed

end
