(* ===== verification/Member.thy ===== *)
theory Member
  imports ClusterTypes
begin

text \<open>
  \<open>cluster/member.go\<close>: one etcd server. Every method returns the member after it, the events it
  caused and its outcome; a method that panics returns the state it had reached.
  \<open>WaitForLeader\<close> is in its own theory.
\<close>

section \<open>Start\<close>

definition rerr_of :: "server_event \<Rightarrow> go_error option" where
  "rerr_of ev = (case ev of ReadyNotify \<Rightarrow> None | ErrChan e \<Rightarrow> e
     | StopNotify \<Rightarrow> Some ''received from etcdserver.Server.StopNotify'')"

definition started_status :: "string \<Rightarrow> env \<Rightarrow> time \<Rightarrow> MemberStatus \<Rightarrow> MemberStatus" where
  "started_status verb E t st = st\<lparr>State := FollowerMemberStatus,
     StateTxt := Name st @ '' just '' @ verb @ '' ('' @ humanize_time E t @ '')'',
     IsLeader := False\<rparr>"

definition Member_Start :: "env \<Rightarrow> member \<Rightarrow> member \<times> event list \<times> go_error option outcome" where
  "Member_Start E m =
     (case start_etcd E (cfg m) of
        Inl e \<Rightarrow> (m, [StartEtcd (cfg m)], Returns (Some e))
      | Inr (s, nc) \<Rightarrow>
          let m1 = m\<lparr>srv := Some s, cfg := nc\<rparr>
          in case rerr_of (started_event E s) of
               Some e \<Rightarrow> (m1, [StartEtcd (cfg m)], Returns (Some e))
             | None \<Rightarrow>
                 let m2 = m1\<lparr>stoppedStartedAt := clock E 0,
                             status := started_status ''started'' E (clock E 0) (status m1)\<rparr>
                 in if LCUrls (cfg m2) = [] \<or> LPUrls (cfg m2) = []
                    then (m2, [StartEtcd (cfg m)], Panics index_panic)
                    else (m2, [StartEtcd (cfg m)], Returns None))"

section \<open>Restart and Stop\<close>

definition ClusterStateFlagNew :: string where
  "ClusterStateFlagNew = ''new''"

definition ClusterStateFlagExisting :: string where
  "ClusterStateFlagExisting = ''existing''"

definition Member_Restart :: "env \<Rightarrow> member \<Rightarrow> member \<times> event list \<times> go_error option outcome" where
  "Member_Restart E m =
     (case srv m of
        None \<Rightarrow> (m, [], Panics nil_panic)
      | Some old \<Rightarrow>
          if State (status m) \<noteq> StoppedMemberStatus then (m, [], Returns None)
          else
            let m1 = m\<lparr>cfg := (cfg m)\<lparr>ClusterState := ClusterStateFlagExisting\<rparr>\<rparr>
            in case start_etcd E (cfg m1) of
                 Inl e \<Rightarrow> (m1, [StartEtcd (cfg m1)], Returns (Some e))
               | Inr (s, nc) \<Rightarrow>
                   (m1\<lparr>srv := Some s, cfg := nc, stoppedStartedAt := clock E 0,
                       status := started_status ''restarted'' E (clock E 0) (status m1)\<rparr>,
                    [StartEtcd (cfg m1)], Returns None))"

definition stopped_status :: "env \<Rightarrow> time \<Rightarrow> MemberStatus \<Rightarrow> MemberStatus" where
  "stopped_status E t st = st\<lparr>IsLeader := False, State := StoppedMemberStatus,
     StateTxt := Name st @ '' just stopped ('' @ humanize_time E t @ '')'',
     DBSize := 0, DBSizeTxt := [], Hash := 0\<rparr>"

definition Member_Stop :: "env \<Rightarrow> member \<Rightarrow> member \<times> event list \<times> unit outcome" where
  "Member_Stop E m =
     (case srv m of
        None \<Rightarrow> (m, [], Panics nil_panic)
      | Some s \<Rightarrow>
          if State (status m) = StoppedMemberStatus then (m, [], Returns ())
          else (m\<lparr>stoppedStartedAt := clock E 0, status := stopped_status E (clock E 0) (status m)\<rparr>,
                [CloseEtcd s], Returns ()))"

section \<open>Client\<close>

definition Member_Client ::
  "env \<Rightarrow> cluster \<Rightarrow> bool \<Rightarrow> string list \<Rightarrow> member
     \<Rightarrow> (client option \<times> nat option \<times> go_error option) outcome" where
  "Member_Client E clus scheme eps m =
     (if embeddedClient clus then
        (case srv m of
           None \<Rightarrow> Panics nil_panic
         | Some s \<Rightarrow>
             let cli = Some (v3client_New E s)
             in if \<not> TLS_Empty (ClientTLSInfo (ccfg clus)) \<or> ClientAutoTLS (ccfg clus) then
                  (case client_tls E (CfgClientTLSInfo (cfg m)) of
                     Inl e \<Rightarrow> Returns (cli, None, Some e)
                   | Inr t \<Rightarrow> Returns (cli, Some t, None))
                else Returns (cli, None, None))
      else
        (case LCUrls (cfg m) of
           [] \<Rightarrow> Panics index_panic
         | u # us \<Rightarrow>
             let ep = (if scheme then url_string u else Host u);
                 cc = \<lparr>Endpoints = (if eps \<noteq> [] then eps else [ep]),
                       ConfigDialTimeout = clientDialTimeout clus, ConfigTLS = None\<rparr>
             in if \<not> TLS_Empty (CfgClientTLSInfo (cfg m)) then
                  (case client_tls E (CfgClientTLSInfo (cfg m)) of
                     Inl e \<Rightarrow> Returns (None, None, Some e)
                   | Inr t \<Rightarrow>
                       (case clientv3_New E (cc\<lparr>ConfigTLS := Some t\<rparr>) of
                          Inl e \<Rightarrow> Returns (None, Some t, Some e)
                        | Inr c \<Rightarrow> Returns (Some c, Some t, None)))
                else
                  (case clientv3_New E cc of
                     Inl e \<Rightarrow> Returns (None, None, Some e)
                   | Inr c \<Rightarrow> Returns (Some c, None, None))))"

section \<open>FetchMemberStatus\<close>

definition unreachable_status :: "string \<Rightarrow> env \<Rightarrow> time \<Rightarrow> go_error \<Rightarrow> MemberStatus \<Rightarrow> MemberStatus" where
  "unreachable_status how E t e st = st\<lparr>State := StoppedMemberStatus,
     StateTxt := Name st @ how @ '' ('' @ humanize_time E t @ '' - '' @ e @ '')'',
     IsLeader := False, DBSize := 0, DBSizeTxt := [], Hash := 0\<rparr>"

definition fetched_status :: "env \<Rightarrow> member \<Rightarrow> url \<Rightarrow> status_response \<Rightarrow> MemberStatus" where
  "fetched_status E m u resp = empty_status\<lparr>
     Name := CfgName (cfg m), ID := hex (unat (MemberId resp)), Endpoint := url_string u,
     IsLeader := (MemberId resp = RespLeader resp),
     State := (if MemberId resp = RespLeader resp then LeaderMemberStatus else FollowerMemberStatus),
     StateTxt := Name (status m) @ '' has been healthy (since '' @ humanize_time E (stoppedStartedAt m) @ '')'',
     DBSize := word_of_int (DbSize resp), DBSizeTxt := humanize_bytes E (word_of_int (DbSize resp))\<rparr>"

definition FetchMemberStatus ::
  "env \<Rightarrow> cluster \<Rightarrow> member \<Rightarrow> member \<times> event list \<times> go_error option outcome" where
  "FetchMemberStatus E clus m =
     (case Member_Client E clus False [] m of
        Panics p \<Rightarrow> (m, [], Panics p)
      | Returns (cli, tlsCfg, Some e) \<Rightarrow> (m, [], Returns (Some e))
      | Returns (None, tlsCfg, None) \<Rightarrow> (m, [], Panics nil_panic)
      | Returns (Some cli, tlsCfg, None) \<Rightarrow>
          (case LCUrls (cfg m) of
             [] \<Rightarrow> (m, [CloseClient cli], Panics index_panic)
           | u # us \<Rightarrow>
               (case rpc_status E cli (url_string u) of
                  Inl e \<Rightarrow> (m\<lparr>status := unreachable_status '' is not reachable'' E (clock E 0) e (status m)\<rparr>,
                            [CloseClient cli], Returns (Some e))
                | Inr resp \<Rightarrow>
                    (case grpc_dial E (Host u) tlsCfg of
                       Some e \<Rightarrow> (m\<lparr>status := unreachable_status '' is not reachable'' E (clock E 1) e (status m)\<rparr>,
                                  [CloseClient cli], Returns (Some e))
                     | None \<Rightarrow>
                         (case rpc_hash E (Host u) of
                            Inl e \<Rightarrow> (m\<lparr>status := unreachable_status '' was not reachable while getting hash''
                                        E (clock E 2) e (status m)\<rparr>,
                                      [CloseClient cli], Returns (Some e))
                          | Inr h \<Rightarrow> (m\<lparr>status := (fetched_status E m u resp)\<lparr>Hash := h\<rparr>\<rparr>,
                                      [CloseClient cli], Returns None))))))"

end
