(* ===== verification/WaitLeader.thy ===== *)
theory WaitLeader
  imports Member
begin

text \<open>
  \<open>Member.WaitForLeader\<close>: its three loops wait on the outside world and may never end, so they
  are partial functions into \<open>option\<close>, \<open>None\<close> meaning that the method never returns. The world
  is a stream of answers: each external call takes the answer of the next tick.
\<close>

record lead_world =
  get_at :: "nat \<Rightarrow> go_error option"
  poll_at :: "nat \<Rightarrow> u64 option"
  status_at :: "nat \<Rightarrow> go_error + status_response"

text \<open>\<open>poll_at t\<close> is \<open>None\<close> when the stop notification fires, else what \<open>Server.Lead()\<close> returns.\<close>

definition allMemberIDs :: "env \<Rightarrow> cluster \<Rightarrow> u64 list option" where
  "allMemberIDs E clus = those (map (\<lambda>m. map_option (etcd_id E) (srv m)) (Members clus))"

text \<open>The first loop: a linearizable get until one succeeds.\<close>

partial_function (option) get_loop :: "(nat \<Rightarrow> go_error option) \<Rightarrow> nat \<Rightarrow> nat option" where
  "get_loop g t = (case g t of None \<Rightarrow> Some (Suc t) | Some e \<Rightarrow> get_loop g (Suc t))"

text \<open>The innermost loop: until the server names a leader that is one of the members.\<close>

partial_function (option) poll_loop ::
  "(nat \<Rightarrow> u64 option) \<Rightarrow> u64 list \<Rightarrow> nat \<Rightarrow> (u64 \<times> nat) option" where
  "poll_loop p possible t =
     (case p t of
        None \<Rightarrow> poll_loop p possible (Suc t)
      | Some lead \<Rightarrow>
          if lead = 0 \<or> lead \<notin> set possible then poll_loop p possible (Suc t)
          else Some (lead, Suc t))"

definition no_leader_yet :: "status_response \<Rightarrow> member \<Rightarrow> member" where
  "no_leader_yet resp m = m\<lparr>status := (status m)\<lparr>ID := hex (unat (MemberId resp)),
     IsLeader := False, State := FollowerMemberStatus\<rparr>\<rparr>"

definition has_leader :: "status_response \<Rightarrow> member \<Rightarrow> member" where
  "has_leader resp m = m\<lparr>status := (status m)\<lparr>ID := hex (unat (MemberId resp)),
     IsLeader := (RespLeader resp = MemberId resp),
     State := (if RespLeader resp = MemberId resp then LeaderMemberStatus else FollowerMemberStatus)\<rparr>\<rparr>"

text \<open>The second loop: until the status call agrees with the server's leader.\<close>

partial_function (option) status_loop ::
  "lead_world \<Rightarrow> u64 list \<Rightarrow> member \<Rightarrow> nat \<Rightarrow> (member \<times> go_error option outcome) option" where
  "status_loop w possible m t =
     (case poll_loop (poll_at w) possible t of
        None \<Rightarrow> None
      | Some (lead, t1) \<Rightarrow>
          if LCUrls (cfg m) = [] then Some (m, Panics index_panic)
          else (case status_at w t1 of
                  Inl e \<Rightarrow> status_loop w possible m (Suc t1)
                | Inr resp \<Rightarrow>
                    if RespLeader resp = 0 then status_loop w possible (no_leader_yet resp m) (Suc t1)
                    else if lead = RespLeader resp then Some (has_leader resp m, Returns None)
                    else status_loop w possible (has_leader resp m) (Suc t1)))"

definition Member_WaitForLeader ::
  "env \<Rightarrow> lead_world \<Rightarrow> cluster \<Rightarrow> member \<Rightarrow> (member \<times> event list \<times> go_error option outcome) option" where
  "Member_WaitForLeader E w clus m =
     (if State (status m) = StoppedMemberStatus then Some (m, [], Returns None)
      else case allMemberIDs E clus of
        None \<Rightarrow> Some (m, [], Panics nil_panic)
      | Some possible \<Rightarrow>
          (case Member_Client E clus False [] m of
             Panics p \<Rightarrow> Some (m, [], Panics p)
           | Returns (cli, tlsCfg, Some e) \<Rightarrow> Some (m, [], Returns (Some e))
           | Returns (None, tlsCfg, None) \<Rightarrow> Some (m, [], Panics nil_panic)
           | Returns (Some cli, tlsCfg, None) \<Rightarrow>
               (case get_loop (get_at w) 0 of
                  None \<Rightarrow> None
                | Some t \<Rightarrow> map_option (\<lambda>(m', out). (m', [CloseClient cli], out)) (status_loop w possible m t))))"

declare get_loop.simps [code] poll_loop.simps [code] status_loop.simps [code]

section \<open>The loops end\<close>

lemma get_loop_ends:
  assumes "g (t + d) = None" shows "\<exists>t'. get_loop g t = Some t' \<and> t < t' \<and> t' \<le> Suc (t + d)"
  using assms
proof (induction d arbitrary: t)
  case 0
  then show ?case by (subst get_loop.simps) auto
next
  case (Suc d)
  show ?case
  proof (cases "g t")
    case None
    then show ?thesis by (subst get_loop.simps) auto
  next
    case (Some e)
    have "g (Suc t + d) = None" using Suc.prems by simp
    from Suc.IH [OF this] Some show ?thesis by (subst get_loop.simps) (auto; fastforce)
  qed
qed

definition good_poll :: "u64 list \<Rightarrow> u64 option \<Rightarrow> bool" where
  "good_poll possible p = (case p of None \<Rightarrow> False | Some l \<Rightarrow> l \<noteq> 0 \<and> l \<in> set possible)"

lemma poll_loop_ends:
  assumes "good_poll possible (p (t + d))"
  shows "\<exists>l t'. poll_loop p possible t = Some (l, t') \<and> t < t' \<and> t' \<le> Suc (t + d)
           \<and> p (t' - 1) = Some l \<and> l \<noteq> 0 \<and> l \<in> set possible"
  using assms
proof (induction d arbitrary: t)
  case 0
  then show ?case by (subst poll_loop.simps) (auto simp: good_poll_def split: option.splits)
next
  case (Suc d)
  show ?case
  proof (cases "good_poll possible (p t)")
    case True
    then show ?thesis by (subst poll_loop.simps) (auto simp: good_poll_def split: option.splits)
  next
    case False
    then have *: "poll_loop p possible t = poll_loop p possible (Suc t)"
      by (subst poll_loop.simps) (auto simp: good_poll_def split: option.splits)
    have "good_poll possible (p (Suc t + d))" using Suc.prems by simp
    from Suc.IH [OF this] show ?thesis unfolding * by fastforce
  qed
qed


lemma poll_loop_result:
  assumes "poll_loop p possible t = Some r" shows "fst r \<noteq> 0 \<and> fst r \<in> set possible"
  by (rule poll_loop.raw_induct [OF _ assms]) (auto split: option.splits if_splits)

lemma get_loop_result:
  assumes "get_loop g t = Some t'" shows "\<exists>s. g s = None"
  by (rule get_loop.raw_induct [OF _ assms, of "\<lambda>g t t'. \<exists>s. g s = None"]) (auto split: option.splits)

lemma has_leader_absorbs [simp]:
  "has_leader r (no_leader_yet r' m) = has_leader r m" "has_leader r (has_leader r' m) = has_leader r m"
  "cfg (has_leader r m) = cfg m" "cfg (no_leader_yet r m) = cfg m"
  by (simp_all add: has_leader_def no_leader_yet_def)

definition led_by :: "lead_world \<Rightarrow> u64 list \<Rightarrow> member \<Rightarrow> member \<Rightarrow> bool" where
  "led_by w possible m m' = (\<exists>s resp. status_at w s = Inr resp \<and> m' = has_leader resp m
     \<and> RespLeader resp \<noteq> 0 \<and> RespLeader resp \<in> set possible)"

lemma led_by_absorbs [simp]:
  "led_by w possible (no_leader_yet r m) m' = led_by w possible m m'"
  "led_by w possible (has_leader r m) m' = led_by w possible m m'"
  by (simp_all add: led_by_def)

lemma status_loop_result:
  assumes "status_loop w possible m t = Some r"
  shows "if LCUrls (cfg m) = [] then r = (m, Panics index_panic)
         else snd r = Returns None \<and> led_by w possible m (fst r)"
proof (rule status_loop.raw_induct [OF _ assms, of "\<lambda>w possible m t r.
    if LCUrls (cfg m) = [] then r = (m, Panics index_panic)
    else snd r = Returns None \<and> led_by w possible m (fst r)"])
  fix f :: "lead_world \<Rightarrow> u64 list \<Rightarrow> member \<Rightarrow> nat \<Rightarrow> (member \<times> go_error option outcome) option"
  fix w possible m t r
  assume IH: "\<And>w possible m t r. f w possible m t = Some r \<Longrightarrow>
      if LCUrls (cfg m) = [] then r = (m, Panics index_panic)
      else snd r = Returns None \<and> led_by w possible m (fst r)"
    and body: "(case poll_loop (poll_at w) possible t of None \<Rightarrow> None
      | Some (lead, t1) \<Rightarrow>
          if LCUrls (cfg m) = [] then Some (m, Panics index_panic)
          else (case status_at w t1 of Inl e \<Rightarrow> f w possible m (Suc t1)
                | Inr resp \<Rightarrow>
                    if RespLeader resp = 0 then f w possible (no_leader_yet resp m) (Suc t1)
                    else if lead = RespLeader resp then Some (has_leader resp m, Returns None)
                    else f w possible (has_leader resp m) (Suc t1))) = Some r"
  from body obtain lead t1 where p: "poll_loop (poll_at w) possible t = Some (lead, t1)"
    by (auto split: option.splits)
  have lead: "lead \<noteq> 0" "lead \<in> set possible" using poll_loop_result [OF p] by auto
  show "if LCUrls (cfg m) = [] then r = (m, Panics index_panic)
      else snd r = Returns None \<and> led_by w possible m (fst r)"
  proof (cases "LCUrls (cfg m) = []")
    case True
    then show ?thesis using body p by simp
  next
    case url: False
    show ?thesis
    proof (cases "status_at w t1")
      case (Inl e)
      then show ?thesis using body p url IH [of w possible m "Suc t1" r] by simp
    next
      case (Inr resp)
      consider "RespLeader resp = 0" | "RespLeader resp \<noteq> 0" "lead \<noteq> RespLeader resp"
        | "RespLeader resp \<noteq> 0" "lead = RespLeader resp" by blast
      then show ?thesis
      proof cases
        case 1
        then show ?thesis
          using body p url Inr IH [of w possible "no_leader_yet resp m" "Suc t1" r] by simp
      next
        case 2
        then show ?thesis
          using body p url Inr IH [of w possible "has_leader resp m" "Suc t1" r] by simp
      next
        case 3
        then show ?thesis using body p url Inr lead
          by (auto simp: led_by_def intro!: exI [of _ t1] exI [of _ resp])
      qed
    qed
  qed
qed

text \<open>A world that is settled from tick \<open>T\<close> on: the polls and the status calls name one
  member as the leader.\<close>

definition settled :: "lead_world \<Rightarrow> u64 list \<Rightarrow> u64 \<Rightarrow> nat \<Rightarrow> bool" where
  "settled w possible L T = (L \<noteq> 0 \<and> L \<in> set possible
     \<and> (\<forall>t\<ge>T. get_at w t = None \<and> poll_at w t = Some L)
     \<and> (\<forall>t\<ge>T. \<exists>resp. status_at w t = Inr resp \<and> RespLeader resp = L))"

lemma status_loop_ends:
  assumes "settled w possible L T" "LCUrls (cfg m) \<noteq> []"
  shows "status_loop w possible m t \<noteq> None"
  using assms(2)
proof (induction "T - t" arbitrary: t m rule: less_induct)
  case less
  let ?d = "T - t"
  have "good_poll possible (poll_at w (t + ?d))"
    using assms(1) by (auto simp: settled_def good_poll_def)
  from poll_loop_ends [where p = "poll_at w", OF this] obtain l t1 where
    p: "poll_loop (poll_at w) possible t = Some (l, t1)" "t < t1" "poll_at w (t1 - 1) = Some l" by blast
  show ?case
  proof (cases "T < t1")
    case True
    then have "l = L" "\<exists>resp. status_at w t1 = Inr resp \<and> RespLeader resp = L" "L \<noteq> 0"
      using p assms(1) by (auto simp: settled_def)
    then show ?thesis using p less.prems by (subst status_loop.simps) auto
  next
    case False
    then have "T - Suc t1 < T - t" using p(2) by simp
    from less.hyps [OF this] have *: "\<And>m. LCUrls (cfg m) \<noteq> [] \<Longrightarrow> status_loop w possible m (Suc t1) \<noteq> None" .
    let ?r = "projr (status_at w t1)"
    show ?thesis using p less.prems * [of m] * [of "no_leader_yet ?r m"] * [of "has_leader ?r m"]
      by (subst status_loop.simps) (auto split: sum.splits)
  qed
qed

end
