(* ===== verification/Cluster.thy ===== *)
theory Cluster
  imports WaitLeader
begin

text \<open>
  \<open>cluster/cluster.go\<close>: the operations on the cluster, and \<open>cluster/cluster_other.go\<close>: what can
  be read from it. An operation returns the cluster after it, the events in order and the
  outcome. An operation that runs a goroutine per member takes the order in which they
  complete: the members' methods do not touch each other's state, so running them in that
  order gives every result a run can have. Go's locks only serialise the operations.
\<close>

section \<open>Reading the cluster\<close>

text \<open>\<open>clus.Members[i]\<close> for a Go \<open>int\<close>: \<open>None\<close> is an index out of range.\<close>

definition member_at :: "cluster \<Rightarrow> int \<Rightarrow> member option" where
  "member_at clus i =
     (if 0 \<le> i \<and> i < int (length (Members clus)) then Some (Members clus ! nat i) else None)"

definition with_member :: "cluster \<Rightarrow> int \<Rightarrow> (member \<Rightarrow> 'a outcome) \<Rightarrow> 'a outcome" where
  "with_member clus i f = (case member_at clus i of None \<Rightarrow> Panics index_panic | Some m \<Rightarrow> f m)"

definition initial_entry :: "member \<Rightarrow> string option" where
  "initial_entry m = (case APUrls (cfg m) of [] \<Rightarrow> None
     | u # us \<Rightarrow> Some (CfgName (cfg m) @ ''='' @ url_string u))"

definition initialCluster :: "cluster \<Rightarrow> string outcome" where
  "initialCluster clus =
     (case those (map initial_entry (Members clus)) of
        None \<Rightarrow> Panics index_panic | Some inits \<Rightarrow> Returns (join inits '',''))"

definition Cluster_InitialCluster :: "cluster \<Rightarrow> string outcome" where
  "Cluster_InitialCluster clus = initialCluster clus"

definition SetClientDialTimeout :: "duration \<Rightarrow> cluster \<Rightarrow> cluster" where
  "SetClientDialTimeout d clus = clus\<lparr>clientDialTimeout := d\<rparr>"

definition StoppedStartedAt :: "cluster \<Rightarrow> int \<Rightarrow> time outcome" where
  "StoppedStartedAt clus i = with_member clus i (\<lambda>m. Returns (stoppedStartedAt m))"

definition Cluster_Config :: "cluster \<Rightarrow> int \<Rightarrow> embed_config outcome" where
  "Cluster_Config clus i = with_member clus i (\<lambda>m. Returns (cfg m))"

text \<open>\<open>make([]T, clus.size)\<close> filled from the members: the slots past the members keep the zero
  value, and a member past the size is an index out of range.\<close>

definition fill :: "int \<Rightarrow> 'a \<Rightarrow> 'a list \<Rightarrow> 'a list outcome" where
  "fill n zero xs =
     (if n < 0 then Panics ''makeslice: len out of range''
      else if int (length xs) > n then Panics index_panic
      else Returns (xs @ replicate (nat n - length xs) zero))"

definition AllConfigs :: "embed_config \<Rightarrow> cluster \<Rightarrow> embed_config list outcome" where
  "AllConfigs zero clus = fill (csize clus) zero (map cfg (Members clus))"

definition url_text :: "bool \<Rightarrow> url \<Rightarrow> string" where
  "url_text scheme u = (if scheme then url_string u else Host u)"

definition Cluster_Endpoints :: "cluster \<Rightarrow> int \<Rightarrow> bool \<Rightarrow> string list outcome" where
  "Cluster_Endpoints clus i scheme =
     with_member clus i (\<lambda>m. Returns (map (url_text scheme) (LCUrls (cfg m))))"

fun endpoints_from :: "bool \<Rightarrow> nat \<Rightarrow> member list \<Rightarrow> string list outcome" where
  "endpoints_from scheme 0 ms = Returns []"
| "endpoints_from scheme (Suc n) [] = Panics index_panic"
| "endpoints_from scheme (Suc n) (m # ms) =
     (case LCUrls (cfg m) of
        [] \<Rightarrow> Panics index_panic
      | u # us \<Rightarrow> (case endpoints_from scheme n ms of
                   Panics p \<Rightarrow> Panics p | Returns eps \<Rightarrow> Returns (url_text scheme u # eps)))"

definition AllEndpoints :: "bool \<Rightarrow> cluster \<Rightarrow> string list outcome" where
  "AllEndpoints scheme clus =
     (if csize clus < 0 then Panics ''makeslice: len out of range''
      else endpoints_from scheme (nat (csize clus)) (Members clus))"

definition is_stopped :: "member \<Rightarrow> bool" where
  "is_stopped m = (State (status m) = StoppedMemberStatus)"

definition IsStopped :: "cluster \<Rightarrow> int \<Rightarrow> bool outcome" where
  "IsStopped clus i = with_member clus i (\<lambda>m. Returns (is_stopped m))"

definition Cluster_Size :: "cluster \<Rightarrow> nat" where
  "Cluster_Size clus = length (Members clus)"

definition Quorum :: "cluster \<Rightarrow> nat" where
  "Quorum clus = length (Members clus) div 2 + 1"

fun count_active :: "member list \<Rightarrow> nat \<Rightarrow> nat" where
  "count_active [] cnt = cnt"
| "count_active (m # ms) cnt =
     count_active ms (if State (status m) \<noteq> StoppedMemberStatus then cnt + 1 else cnt)"

definition ActiveNodeN :: "cluster \<Rightarrow> nat" where
  "ActiveNodeN clus = count_active (Members clus) 0"

definition Cluster_MemberStatus :: "cluster \<Rightarrow> int \<Rightarrow> MemberStatus outcome" where
  "Cluster_MemberStatus clus i = with_member clus i (\<lambda>m. Returns (status m))"

definition AllMemberStatus :: "cluster \<Rightarrow> MemberStatus list outcome" where
  "AllMemberStatus clus = fill (csize clus) empty_status (map status (Members clus))"

definition FindIndex :: "cluster \<Rightarrow> string \<Rightarrow> int" where
  "FindIndex clus ep =
     (case clientHostToIndex clus (getHost ep) of None \<Rightarrow> - 1 | Some idx \<Rightarrow> int idx)"

section \<open>Goroutine groups\<close>

text \<open>\<open>errgroup\<close>: every goroutine runs, in the given order of completion; \<open>Wait\<close> returns the
  first error. A panic in a goroutine ends the process.\<close>

fun go_group ::
  "(nat \<Rightarrow> member \<Rightarrow> member \<times> event list \<times> go_error option outcome) \<Rightarrow> nat list \<Rightarrow> member list
     \<Rightarrow> member list \<times> event list \<times> go_error option outcome" where
  "go_group f [] ms = (ms, [], Returns None)"
| "go_group f (i # order) ms =
     (if i < length ms then
        (case f i (ms ! i) of
           (m', evs, Panics p) \<Rightarrow> (ms[i := m'], evs, Panics p)
         | (m', evs, Returns err) \<Rightarrow>
             (case go_group f order (ms[i := m']) of
                (ms', evs', Panics p) \<Rightarrow> (ms', evs @ evs', Panics p)
              | (ms', evs', Returns err') \<Rightarrow>
                  (ms', evs @ evs', Returns (case err of None \<Rightarrow> err' | Some e \<Rightarrow> Some e))))
      else (ms, [], Panics index_panic))"

text \<open>The same for goroutines that recover from their panics and drop their errors.\<close>

fun go_recover ::
  "(nat \<Rightarrow> member \<Rightarrow> member \<times> event list \<times> 'r outcome) \<Rightarrow> nat list \<Rightarrow> member list
     \<Rightarrow> member list \<times> event list" where
  "go_recover f [] ms = (ms, [])"
| "go_recover f (i # order) ms =
     (if i < length ms then
        (case f i (ms ! i) of (m', evs, r) \<Rightarrow>
          (case go_recover f order (ms[i := m']) of (ms', evs') \<Rightarrow> (ms', evs @ evs')))
      else go_recover f order ms)"

section \<open>Building members\<close>

definition local_host :: "int \<Rightarrow> string" where
  "local_host port = ''localhost:'' @ dec_int port"

definition client_url :: "config \<Rightarrow> int \<Rightarrow> url" where
  "client_url c port = \<lparr>Scheme = ClientScheme c, Host = local_host port\<rparr>"

definition peer_url :: "config \<Rightarrow> int \<Rightarrow> url" where
  "peer_url c port = \<lparr>Scheme = PeerScheme c, Host = local_host (port + 1)\<rparr>"

definition member_config ::
  "env \<Rightarrow> config \<Rightarrow> string \<Rightarrow> string \<Rightarrow> string \<Rightarrow> int \<Rightarrow> int \<Rightarrow> embed_config" where
  "member_config E c root dhost flag number port =
     (let name = ''node'' @ dec_int number;
          curl = client_url c port;
          curl2 = \<lparr>Scheme = ClientScheme c, Host = dhost @ '':'' @ dec_int port\<rparr>;
          purl = peer_url c port
      in (new_config E)\<lparr>
           ClusterState := flag, CfgName := name,
           Dir := filepath_join [root, name @ ''.data-dir-etcd''],
           WalDir := filepath_join [root, name @ ''.data-dir-etcd'', ''wal''],
           ACUrls := [curl],
           LCUrls := (if dhost \<noteq> ''localhost'' then [curl, curl2] else [curl]),
           APUrls := [purl], LPUrls := [purl],
           CfgClientAutoTLS := ClientAutoTLS c, CfgClientTLSInfo := ClientTLSInfo c,
           CfgPeerAutoTLS := PeerAutoTLS c, CfgPeerTLSInfo := PeerTLSInfo c,
           AutoCompactionMode := ''periodic'', AutoCompactionRetention := ''1h''\<rparr>)"

text \<open>\<open>Start\<close> also sets the logger; \<open>Add\<close> leaves the default.\<close>

definition with_logger :: "embed_config \<Rightarrow> embed_config" where
  "with_logger ec = ec\<lparr>Logger := ''zap'', LogOutputs := [''stderr'']\<rparr>"

definition new_member :: "embed_config \<Rightarrow> url \<Rightarrow> member" where
  "new_member ec curl = \<lparr>cfg = ec, srv = None, stoppedStartedAt = 0,
     status = empty_status\<lparr>Name := CfgName ec, Endpoint := url_string curl, IsLeader := False,
                           State := StoppedMemberStatus\<rparr>\<rparr>"

definition dhost_of :: "env \<Rightarrow> string" where
  "dhost_of E = (case default_host E of Inl e \<Rightarrow> ''localhost'' | Inr h \<Rightarrow> h)"

fun build_loop ::
  "env \<Rightarrow> config \<Rightarrow> nat \<Rightarrow> cluster \<Rightarrow> int \<Rightarrow> cluster \<times> int \<times> event list" where
  "build_loop E c 0 clus port = (clus, port, [])"
| "build_loop E c (Suc n) clus port =
     (let i = length (Members clus);
          ec = with_logger (member_config E c (RootDir c) (dhost_of E) ClusterStateFlagNew (int i + 1) port);
          curl = client_url c port
      in case build_loop E c n
                (clus\<lparr>Members := Members clus @ [new_member ec curl],
                      clientHostToIndex := (clientHostToIndex clus)(Host curl \<mapsto> i)\<rparr>) (port + 2) of
           (clus', port', evs) \<Rightarrow> (clus', port', RemoveAll (Dir ec) # RemoveAll (WalDir ec) # evs))"

text \<open>\<open>for i := 0; i < clus.size; i++ { clus.Members[i].cfg.InitialCluster = clus.initialCluster() }\<close>\<close>

fun set_initial :: "nat \<Rightarrow> nat \<Rightarrow> cluster \<Rightarrow> cluster \<times> unit outcome" where
  "set_initial 0 i clus = (clus, Returns ())"
| "set_initial (Suc n) i clus =
     (case initialCluster clus of
        Panics p \<Rightarrow> (clus, Panics p)
      | Returns s \<Rightarrow>
          if i < length (Members clus) then
            set_initial n (Suc i) (clus\<lparr>Members := (Members clus)[i :=
              (Members clus ! i)\<lparr>cfg := (cfg (Members clus ! i))\<lparr>InitialCluster := s\<rparr>\<rparr>]\<rparr>)
          else (clus, Panics index_panic))"

section \<open>WaitForLeader\<close>

text \<open>An \<open>errgroup\<close> whose goroutines may never return. \<open>None\<close>: one of them does not, and none
  panics before.\<close>

fun wait_group ::
  "(nat \<Rightarrow> member \<Rightarrow> (member \<times> event list \<times> go_error option outcome) option) \<Rightarrow> nat list
     \<Rightarrow> member list \<Rightarrow> (member list \<times> event list \<times> go_error option outcome) option" where
  "wait_group f [] ms = Some (ms, [], Returns None)"
| "wait_group f (i # order) ms =
     (if i < length ms then
        (case f i (ms ! i) of
           None \<Rightarrow> None
         | Some (m', evs, Panics p) \<Rightarrow> Some (ms[i := m'], evs, Panics p)
         | Some (m', evs, Returns err) \<Rightarrow>
             (case wait_group f order (ms[i := m']) of
                None \<Rightarrow> None
              | Some (ms', evs', Panics p) \<Rightarrow> Some (ms', evs @ evs', Panics p)
              | Some (ms', evs', Returns err') \<Rightarrow>
                  Some (ms', evs @ evs', Returns (case err of None \<Rightarrow> err' | Some e \<Rightarrow> Some e))))
      else Some (ms, [], Panics index_panic))"

fun scan_leaders ::
  "env \<Rightarrow> nat \<Rightarrow> bool \<Rightarrow> member list \<Rightarrow> cluster \<Rightarrow> cluster \<times> go_error option outcome" where
  "scan_leaders E i found [] clus = (clus, Returns None)"
| "scan_leaders E i found (m # ms) clus =
     (if IsLeader (status m) then
        if found then
          (case member_at clus (int (LeadIdx clus)) of
             None \<Rightarrow> (clus, Panics index_panic)
           | Some l \<Rightarrow>
               (case srv l of
                  None \<Rightarrow> (clus, Panics nil_panic)
                | Some s \<Rightarrow> (clus, Returns (Some (''duplicate leader? '' @ quote (CfgName (cfg l)) @ ''(''
                      @ hex (unat (etcd_id E s)) @ '') claims to be the leader'')))))
        else
          (case srv m of
             None \<Rightarrow> (clus\<lparr>LeadIdx := i\<rparr>, Panics nil_panic)
           | Some s \<Rightarrow> scan_leaders E (Suc i) True ms (clus\<lparr>LeadIdx := i\<rparr>))
      else scan_leaders E (Suc i) found ms clus)"

definition Cluster_WaitForLeader ::
  "env \<Rightarrow> (nat \<Rightarrow> env) \<Rightarrow> (nat \<Rightarrow> lead_world) \<Rightarrow> nat list \<Rightarrow> cluster
     \<Rightarrow> (cluster \<times> event list \<times> go_error option outcome) option" where
  "Cluster_WaitForLeader E Es ws order clus =
     (case wait_group (\<lambda>i. Member_WaitForLeader (Es i) (ws i) clus) order (Members clus) of
        None \<Rightarrow> None
      | Some (ms, evs, Panics p) \<Rightarrow> Some (clus\<lparr>Members := ms\<rparr>, evs, Panics p)
      | Some (ms, evs, Returns (Some e)) \<Rightarrow> Some (clus\<lparr>Members := ms\<rparr>, evs, Returns (Some e))
      | Some (ms, evs, Returns None) \<Rightarrow>
          (case scan_leaders E 0 False ms (clus\<lparr>Members := ms\<rparr>) of
             (clus2, r) \<Rightarrow> Some (clus2, evs, r)))"

end
