(* ===== verification/ClusterOps.thy ===== *)
theory ClusterOps
  imports Cluster
begin

text \<open>
  The operations of \<open>cluster/cluster.go\<close> that change the cluster: \<open>Start\<close>, \<open>Stop\<close>, \<open>Restart\<close>,
  \<open>Add\<close>, \<open>Remove\<close>, \<open>Shutdown\<close>, \<open>UpdateMemberStatus\<close>; and \<open>Client\<close>.
\<close>

definition set_member :: "int \<Rightarrow> member \<Rightarrow> cluster \<Rightarrow> cluster" where
  "set_member i m clus = clus\<lparr>Members := (Members clus)[nat i := m]\<rparr>"

section \<open>Start\<close>

definition empty_cluster :: "env \<Rightarrow> config \<Rightarrow> cluster" where
  "empty_cluster E c = \<lparr>embeddedClient = EmbeddedClient c, Started = clock E 0,
     csize = Config_Size c, LeadIdx = 0, Members = [], clientHostToIndex = Map.empty,
     clientDialTimeout = (if DialTimeout c = 0 then defaultDialTimeout else DialTimeout c),
     basePort = RootPort c, rootDir = RootDir c, ccfg = c, stopcClosed = False,
     rootCanceled = False\<rparr>"

definition root_dir :: "env \<Rightarrow> config \<Rightarrow> event list \<times> go_error option" where
  "root_dir E c = (if \<not> existFileOrDir E (RootDir c) then mkdirAll E (RootDir c)
                   else ([RemoveAll (RootDir c)], None))"

text \<open>\<open>Start\<close> up to the goroutines that start the members: the cluster with every member
  configured.\<close>

definition Start_configure :: "env \<Rightarrow> config \<Rightarrow> event list \<times> (go_error + cluster) outcome" where
  "Start_configure E c =
     (if Config_Size c > 7 then
        ([], Returns (Inl (''max cluster size is 7, got '' @ dec_int (Config_Size c))))
      else if Config_Size c < 0 then ([], Panics ''makeslice: len out of range'')
      else case root_dir E c of
        (evs, Some e) \<Rightarrow> (evs, Returns (Inl e))
      | (evs, None) \<Rightarrow>
          if \<not> TLS_Empty (PeerTLSInfo c) \<and> PeerAutoTLS c then
            (evs, Returns (Inl ''choose either auto peer TLS or manual peer TLS''))
          else if \<not> TLS_Empty (ClientTLSInfo c) \<and> ClientAutoTLS c then
            (evs, Returns (Inl ''choose either auto client TLS or manual client TLS''))
          else (case build_loop E c (nat (Config_Size c)) (empty_cluster E c) (RootPort c) of
                  (clus, port, evs') \<Rightarrow>
                    (case set_initial (nat (Config_Size c)) 0 (clus\<lparr>basePort := port\<rparr>) of
                       (clus', Panics p) \<Rightarrow> (evs @ evs', Panics p)
                     | (clus', Returns u) \<Rightarrow> (evs @ evs', Returns (Inr clus')))))"

text \<open>The whole of it; the cluster is \<open>None\<close> when \<open>Start\<close> returns \<open>nil\<close>. \<open>Es\<close> and \<open>ws\<close> are the
  worlds the members' goroutines run in, \<open>order\<close> and \<open>order'\<close> the orders in which the two
  groups complete.\<close>

definition Cluster_Start ::
  "env \<Rightarrow> (nat \<Rightarrow> env) \<Rightarrow> (nat \<Rightarrow> lead_world) \<Rightarrow> nat list \<Rightarrow> nat list \<Rightarrow> config
     \<Rightarrow> (cluster option \<times> event list \<times> go_error option outcome) option" where
  "Cluster_Start E Es ws order order' c =
     (case Start_configure E c of
        (evs, Panics p) \<Rightarrow> Some (None, evs, Panics p)
      | (evs, Returns (Inl e)) \<Rightarrow> Some (None, evs, Returns (Some e))
      | (evs, Returns (Inr clus)) \<Rightarrow>
          (case go_group (\<lambda>i. Member_Start (Es i)) order (Members clus) of
             (ms, evs', Panics p) \<Rightarrow> Some (None, evs @ evs', Panics p)
           | (ms, evs', Returns (Some e)) \<Rightarrow> Some (None, evs @ evs', Returns (Some e))
           | (ms, evs', Returns None) \<Rightarrow>
               (case Cluster_WaitForLeader E Es ws order' (clus\<lparr>Members := ms\<rparr>) of
                  None \<Rightarrow> None
                | Some (clus', evs'', Panics p) \<Rightarrow> Some (None, evs @ evs' @ evs'', Panics p)
                | Some (clus', evs'', Returns r) \<Rightarrow> Some (Some clus', evs @ evs' @ evs'', Returns r))))"

section \<open>Stop and Restart\<close>

definition Cluster_Stop :: "env \<Rightarrow> int \<Rightarrow> cluster \<Rightarrow> cluster \<times> event list \<times> unit outcome" where
  "Cluster_Stop E i clus =
     (case member_at clus i of
        None \<Rightarrow> (clus, [], Panics index_panic)
      | Some m \<Rightarrow> (case Member_Stop E m of (m', evs, r) \<Rightarrow> (set_member i m' clus, evs, r)))"

definition Cluster_Restart ::
  "env \<Rightarrow> int \<Rightarrow> cluster \<Rightarrow> cluster \<times> event list \<times> go_error option outcome" where
  "Cluster_Restart E i clus =
     (case member_at clus i of
        None \<Rightarrow> (clus, [], Panics index_panic)
      | Some m \<Rightarrow> (case Member_Restart E m of (m', evs, r) \<Rightarrow> (set_member i m' clus, evs, r)))"

text \<open>\<open>StopNotify\<close>: whether a receive from the returned channel goes on.\<close>

definition Cluster_StopNotify :: "cluster \<Rightarrow> bool" where
  "Cluster_StopNotify clus = stopcClosed clus"

section \<open>Add\<close>

text \<open>\<open>Add\<close> in two parts: the new member is configured and put in the list, then it is announced
  to the running cluster and started.\<close>

definition Add_member :: "env \<Rightarrow> cluster \<Rightarrow> cluster \<times> event list" where
  "Add_member E clus =
     (let ec = member_config E (ccfg clus) (rootDir clus) (dhost_of E) ClusterStateFlagExisting
                 (csize clus + 1) (basePort clus);
          curl = client_url (ccfg clus) (basePort clus)
      in (clus\<lparr>csize := csize clus + 1, basePort := basePort clus + 2,
               Members := Members clus @ [new_member ec curl],
               clientHostToIndex := (clientHostToIndex clus)(Host curl \<mapsto> length (Members clus))\<rparr>,
          [RemoveAll (Dir ec), RemoveAll (WalDir ec)]))"

definition Cluster_Add :: "env \<Rightarrow> cluster \<Rightarrow> cluster \<times> event list \<times> go_error option outcome" where
  "Cluster_Add E clus =
     (case Add_member E clus of
        (clus1, evs) \<Rightarrow>
          (case set_initial (nat (csize clus1)) 0 clus1 of
             (clus2, Panics p) \<Rightarrow> (clus2, evs, Panics p)
           | (clus2, Returns u) \<Rightarrow>
               let idx = int (length (Members clus2)) - 1
               in (case (member_at clus2 0, member_at clus2 idx) of
                     (Some m0, Some m) \<Rightarrow>
                       (case Member_Client E clus2 False [] m0 of
                          Panics p \<Rightarrow> (clus2, evs, Panics p)
                        | Returns (cli, tls, Some e) \<Rightarrow> (clus2, evs, Returns (Some e))
                        | Returns (None, tls, None) \<Rightarrow> (clus2, evs, Panics nil_panic)
                        | Returns (Some cli, tls, None) \<Rightarrow>
                            (case APUrls (cfg m) of
                               [] \<Rightarrow> (clus2, evs, Panics index_panic)
                             | u # us \<Rightarrow>
                                 (case rpc_member_add E cli [url_string u] of
                                    Some e \<Rightarrow> (clus2, evs @ [MemberAdd [url_string u]], Returns (Some e))
                                  | None \<Rightarrow>
                                      (case Member_Start E m of
                                         (m', evs', r) \<Rightarrow>
                                           (set_member idx m' clus2,
                                            evs @ [MemberAdd [url_string u]] @ evs', r)))))
                   | _ \<Rightarrow> (clus2, evs, Panics index_panic))))"

section \<open>Remove\<close>

text \<open>\<open>clus.clientHostToIndex[m.cfg.LCUrls[0].Host] = j\<close> for every member.\<close>

fun reindex :: "nat \<Rightarrow> member list \<Rightarrow> (string \<rightharpoonup> nat) \<Rightarrow> (string \<rightharpoonup> nat) \<times> unit outcome" where
  "reindex j [] hm = (hm, Returns ())"
| "reindex j (m # ms) hm =
     (case LCUrls (cfg m) of
        [] \<Rightarrow> (hm, Panics index_panic)
      | u # us \<Rightarrow> reindex (Suc j) ms (hm(Host u \<mapsto> j)))"

definition remove_nth :: "nat \<Rightarrow> 'a list \<Rightarrow> 'a list" where
  "remove_nth i xs = take i xs @ drop (Suc i) xs"

text \<open>What \<open>Remove\<close> does once the member has left the etcd cluster. The last three statements
  read \<open>clus.Members[i]\<close> in the new list.\<close>

definition Remove_member :: "env \<Rightarrow> int \<Rightarrow> cluster \<Rightarrow> cluster \<times> event list \<times> go_error option outcome" where
  "Remove_member E i clus =
     (let clus1 = clus\<lparr>csize := csize clus - 1, Members := remove_nth (nat i) (Members clus)\<rparr>
      in case reindex 0 (Members clus1) (clientHostToIndex clus1) of
           (hm, Panics p) \<Rightarrow> (clus1\<lparr>clientHostToIndex := hm\<rparr>, [], Panics p)
         | (hm, Returns u) \<Rightarrow>
             let clus2 = clus1\<lparr>clientHostToIndex := hm\<rparr>
             in case member_at clus2 i of
                  None \<Rightarrow> (clus2, [], Panics index_panic)
                | Some m \<Rightarrow>
                    (case Member_Stop E m of
                       (m', evs, Panics p) \<Rightarrow> (set_member i m' clus2, evs, Panics p)
                     | (m', evs, Returns v) \<Rightarrow>
                         (set_member i m' clus2,
                          evs @ [RemoveAll (Dir (cfg m')), RemoveAll (WalDir (cfg m'))], Returns None)))"

definition Cluster_Remove ::
  "env \<Rightarrow> int \<Rightarrow> cluster \<Rightarrow> cluster \<times> event list \<times> go_error option outcome" where
  "Cluster_Remove E i clus =
     (if csize clus = 0 then (clus, [], Panics ''integer divide by zero'')
      else case (member_at clus i, member_at clus ((i + 1) mod csize clus)) of
        (Some mi, Some mx) \<Rightarrow>
          (case Member_Client E clus False [] mx of
             Panics p \<Rightarrow> (clus, [], Panics p)
           | Returns (cli, tls, Some e) \<Rightarrow> (clus, [], Returns (Some e))
           | Returns (None, tls, None) \<Rightarrow> (clus, [], Panics nil_panic)
           | Returns (Some cli, tls, None) \<Rightarrow>
               (case srv mi of
                  None \<Rightarrow> (clus, [], Panics nil_panic)
                | Some s \<Rightarrow>
                    (case rpc_member_remove E cli (etcd_id E s) of
                       Some e \<Rightarrow> (clus, [MemberRemove (etcd_id E s)], Returns (Some e))
                     | None \<Rightarrow>
                         (case Remove_member E i clus of
                            (clus', evs, r) \<Rightarrow> (clus', MemberRemove (etcd_id E s) # evs, r)))))
      | _ \<Rightarrow> (clus, [], Panics index_panic))"

section \<open>Shutdown, Client, UpdateMemberStatus\<close>

definition Stop_group :: "(nat \<Rightarrow> env) \<Rightarrow> nat \<Rightarrow> member \<Rightarrow> member \<times> event list \<times> go_error option outcome" where
  "Stop_group Es i m =
     (case Member_Stop (Es i) m of
        (m', evs, Panics p) \<Rightarrow> (m', evs, Panics p)
      | (m', evs, Returns u) \<Rightarrow> (m', evs, Returns None))"

definition Cluster_Shutdown ::
  "(nat \<Rightarrow> env) \<Rightarrow> nat list \<Rightarrow> cluster \<Rightarrow> cluster \<times> event list \<times> unit outcome" where
  "Cluster_Shutdown Es order clus =
     (if stopcClosed clus then (clus\<lparr>rootCanceled := True\<rparr>, [], Panics closed_panic)
      else let clus1 = clus\<lparr>rootCanceled := True, stopcClosed := True\<rparr>
      in case go_group (Stop_group Es) order (Members clus1) of
           (ms, evs, Panics p) \<Rightarrow> (clus1\<lparr>Members := ms\<rparr>, evs, Panics p)
         | (ms, evs, Returns r) \<Rightarrow>
             (clus1\<lparr>Members := ms\<rparr>, evs @ [RemoveAll (rootDir clus1)], Returns ()))"

definition Cluster_Client ::
  "env \<Rightarrow> cluster \<Rightarrow> string list \<Rightarrow> (client option \<times> nat option \<times> go_error option) outcome" where
  "Cluster_Client E clus eps =
     (case eps of
        [] \<Rightarrow> Returns (None, None, Some ''no endpoint is given'')
      | ep # rest \<Rightarrow>
          (case clientHostToIndex clus (getHost ep) of
             None \<Rightarrow> Returns (None, None, Some (''cannot find node with endpoint '' @ ep))
           | Some idx \<Rightarrow> with_member clus (int idx) (Member_Client E clus False eps)))"

text \<open>\<open>UpdateMemberStatus\<close> with its goroutines one after the other, each on its own member;
  \<open>UpdateRace\<close> interleaves them on the shared cluster.\<close>

definition UpdateMemberStatus ::
  "(nat \<Rightarrow> env) \<Rightarrow> nat list \<Rightarrow> cluster \<Rightarrow> cluster \<times> event list" where
  "UpdateMemberStatus Es order clus =
     (case go_recover (\<lambda>i. FetchMemberStatus (Es i) clus) order (Members clus) of
        (ms, evs) \<Rightarrow> (clus\<lparr>Members := ms\<rparr>, evs))"

end
