(* ===== verification/MemberInv.thy ===== *)
theory MemberInv
  imports ClusterOps
begin

text \<open>
  What every method of a member keeps, and how a group of goroutines, one per member, keeps it.

  \<open>evolves b m m'\<close>: the name, the directories and the URLs are the same, and a consistent
  member stays consistent (\<open>b\<close> is the cluster's \<open>embeddedClient\<close>). The locale
  \<open>member_method\<close> is the contract the goroutine groups need of the method they run; it is
  interpreted on each of the methods.
\<close>

section \<open>A consistent member\<close>

definition member_ok :: "bool \<Rightarrow> member \<Rightarrow> bool" where
  "member_ok emb m =
     (State (status m) \<in> {StoppedMemberStatus, FollowerMemberStatus, LeaderMemberStatus}
      \<and> (IsLeader (status m) \<longrightarrow> State (status m) = LeaderMemberStatus)
      \<and> (emb \<longrightarrow> srv m = None \<longrightarrow> State (status m) = StoppedMemberStatus))"

definition same_place :: "embed_config \<Rightarrow> embed_config \<Rightarrow> bool" where
  "same_place c d = (CfgName c = CfgName d \<and> Dir c = Dir d \<and> WalDir c = WalDir d
     \<and> LCUrls c = LCUrls d \<and> APUrls c = APUrls d \<and> LPUrls c = LPUrls d)"

definition evolves :: "bool \<Rightarrow> member \<Rightarrow> member \<Rightarrow> bool" where
  "evolves emb m m' = (same_place (cfg m) (cfg m') \<and> (member_ok emb m \<longrightarrow> member_ok emb m'))"

text \<open>What the code relies on: \<open>Config()\<close> of a started server returns the configuration it was
  started with, as far as its name, directories and URLs go.\<close>

definition keeps_config :: "env \<Rightarrow> bool" where
  "keeps_config E = (\<forall>c s nc. start_etcd E c = Inr (s, nc) \<longrightarrow> same_place c nc)"

lemma same_place_refl [simp]: "same_place c c"
  by (simp add: same_place_def)

lemma same_place_trans: "same_place a b \<Longrightarrow> same_place b c \<Longrightarrow> same_place a c"
  by (simp add: same_place_def)

lemma same_place_upd [simp]:
  "same_place (c\<lparr>ClusterState := x\<rparr>) d = same_place c d"
  "same_place c (d\<lparr>ClusterState := x\<rparr>) = same_place c d"
  "same_place (c\<lparr>InitialCluster := x\<rparr>) d = same_place c d"
  "same_place c (d\<lparr>InitialCluster := x\<rparr>) = same_place c d"
  by (simp_all add: same_place_def)

lemma keeps_configD: "keeps_config E \<Longrightarrow> start_etcd E c = Inr (s, nc) \<Longrightarrow> same_place c nc"
  by (auto simp: keeps_config_def)

lemma evolves_refl [simp]: "evolves emb m m"
  by (simp add: evolves_def)

lemma evolves_trans: "evolves emb a b \<Longrightarrow> evolves emb b c \<Longrightarrow> evolves emb a c"
  by (auto simp: evolves_def intro: same_place_trans)

section \<open>Groups of goroutines\<close>

locale member_method =
  fixes R :: "member \<Rightarrow> member \<Rightarrow> bool"
    and f :: "nat \<Rightarrow> member \<Rightarrow> member \<times> event list \<times> 'r outcome"
  assumes refl: "R m m"
    and trans: "R a b \<Longrightarrow> R b c \<Longrightarrow> R a c"
    and step: "R m (fst (f i m))"
begin

lemma upd: "i < length ms \<Longrightarrow> list_all2 R ms (ms[i := fst (f i (ms ! i))])"
  using refl step by (auto simp: list_all2_conv_all_nth nth_list_update)

lemma list_trans: "list_all2 R a b \<Longrightarrow> list_all2 R b c \<Longrightarrow> list_all2 R a c"
  by (rule list_all2_trans [of R R R]) (auto intro: trans)

lemma go_recover: "list_all2 R ms (fst (go_recover f order ms))"
proof (induction order arbitrary: ms)
  case Nil
  then show ?case using refl by (simp add: list.rel_refl)
next
  case (Cons i order)
  show ?case
  proof (cases "i < length ms")
    case True
    from list_trans [OF upd [OF True] Cons] show ?thesis
      using True by (auto split: prod.splits)
  next
    case False
    then show ?thesis using Cons by simp
  qed
qed

end

locale errgroup_method = member_method R f
  for R :: "member \<Rightarrow> member \<Rightarrow> bool"
    and f :: "nat \<Rightarrow> member \<Rightarrow> member \<times> event list \<times> go_error option outcome"
begin

lemma go_group: "list_all2 R ms (fst (go_group f order ms))"
proof (induction order arbitrary: ms)
  case Nil
  then show ?case using refl by (simp add: list.rel_refl)
next
  case (Cons i order)
  show ?case
  proof (cases "i < length ms")
    case True
    from upd [OF True] list_trans [OF upd [OF True] Cons] show ?thesis
      using True by (auto split: prod.splits outcome.splits)
  next
    case False
    then show ?thesis using refl by (simp add: list.rel_refl)
  qed
qed

end

text \<open>The same for a method that may not return.\<close>

locale waiting_method =
  fixes R :: "member \<Rightarrow> member \<Rightarrow> bool"
    and f :: "nat \<Rightarrow> member \<Rightarrow> (member \<times> event list \<times> go_error option outcome) option"
  assumes refl: "R m m"
    and trans: "R a b \<Longrightarrow> R b c \<Longrightarrow> R a c"
    and step: "f i m = Some r \<Longrightarrow> R m (fst r)"
begin

lemma wait_group: "wait_group f order ms = Some r \<Longrightarrow> list_all2 R ms (fst r)"
proof (induction order arbitrary: ms r)
  case Nil
  then show ?case using refl by (auto simp: list.rel_refl)
next
  case (Cons i order)
  show ?case
  proof (cases "i < length ms")
    case True
    then obtain q where q: "f i (ms ! i) = Some q" using Cons.prems by (auto split: option.splits)
    have u: "list_all2 R ms (ms[i := fst q])"
      using step [OF q] True refl by (auto simp: list_all2_conv_all_nth nth_list_update)
    have "list_all2 R ms (fst r')" if "wait_group f order (ms[i := fst q]) = Some r'" for r'
      by (rule list_all2_trans [OF trans u Cons.IH [OF that]])
    then show ?thesis using Cons.prems True q u
      by (cases q) (auto split: outcome.splits option.splits)
  next
    case False
    then show ?thesis using Cons.prems refl by (auto simp: list.rel_refl)
  qed
qed

end

section \<open>The methods\<close>

lemma status_ok_simps [simp]:
  "State (started_status v E t st) = FollowerMemberStatus" "IsLeader (started_status v E t st) = False"
  "State (stopped_status E t st) = StoppedMemberStatus" "IsLeader (stopped_status E t st) = False"
  "State (unreachable_status h E t e st) = StoppedMemberStatus"
  "IsLeader (unreachable_status h E t e st) = False"
  by (simp_all add: started_status_def stopped_status_def unreachable_status_def)

lemma Member_Start_evolves:
  "keeps_config E \<Longrightarrow> evolves emb m (fst (Member_Start E m))"
  by (auto simp: Member_Start_def Let_def evolves_def member_ok_def dest: keeps_configD
      split: sum.splits option.splits)

lemma Member_Restart_evolves:
  "keeps_config E \<Longrightarrow> evolves emb m (fst (Member_Restart E m))"
  by (auto simp: Member_Restart_def Let_def evolves_def member_ok_def dest: keeps_configD
      split: sum.splits option.splits)

lemma Member_Stop_evolves: "evolves emb m (fst (Member_Stop E m))"
  by (auto simp: Member_Stop_def evolves_def member_ok_def split: option.splits)

lemma Stop_group_evolves: "evolves emb m (fst (Stop_group Es i m))"
  using Member_Stop_evolves [of emb m "Es i"]
  by (auto simp: Stop_group_def split: prod.splits outcome.splits)

lemma FetchMemberStatus_evolves: "evolves (embeddedClient clus) m (fst (FetchMemberStatus E clus m))"
proof -
  have "srv m = None \<Longrightarrow> embeddedClient clus \<Longrightarrow> fst (FetchMemberStatus E clus m) = m"
    by (simp add: FetchMemberStatus_def Member_Client_def)
  moreover have "cfg (fst (FetchMemberStatus E clus m)) = cfg m"
    by (auto simp: FetchMemberStatus_def split: outcome.splits option.splits list.splits sum.splits)
  moreover have "srv (fst (FetchMemberStatus E clus m)) = srv m"
    by (auto simp: FetchMemberStatus_def split: outcome.splits option.splits list.splits sum.splits)
  moreover have "member_ok False m \<Longrightarrow> member_ok False (fst (FetchMemberStatus E clus m))"
    by (auto simp: FetchMemberStatus_def member_ok_def fetched_status_def empty_status_def
        split: outcome.splits option.splits list.splits sum.splits)
  ultimately show ?thesis by (auto simp: evolves_def member_ok_def)
qed

lemma has_leader_evolves: "\<not> is_stopped m \<Longrightarrow> evolves emb m (has_leader r m)"
  by (cases "RespLeader r = MemberId r")
    (simp_all add: evolves_def member_ok_def has_leader_def is_stopped_def)

lemma status_loop_evolves:
  assumes "status_loop w ids m t = Some q" "\<not> is_stopped m" shows "evolves emb m (fst q)"
proof (cases "LCUrls (cfg m) = []")
  case True
  then show ?thesis using status_loop_result [OF assms(1)] by simp
next
  case False
  then obtain r where "fst q = has_leader r m"
    using status_loop_result [OF assms(1)] by (auto simp: led_by_def)
  then show ?thesis using has_leader_evolves [OF assms(2)] by simp
qed

lemma Member_WaitForLeader_evolves:
  assumes "Member_WaitForLeader E w clus m = Some r" shows "evolves emb m (fst r)"
  using assms unfolding Member_WaitForLeader_def
  by (auto split: if_splits option.splits outcome.splits)
    (metis status_loop_evolves is_stopped_def fst_conv)

text \<open>The contract holds for the three methods the code runs in groups. The methods of a world
  that breaks \<open>keeps_config\<close> are covered by giving \<open>Start\<close> a relation that asks for it.\<close>

definition start_evolves :: "(nat \<Rightarrow> env) \<Rightarrow> bool \<Rightarrow> member \<Rightarrow> member \<Rightarrow> bool" where
  "start_evolves Es emb m m' = ((\<forall>i. keeps_config (Es i)) \<longrightarrow> evolves emb m m')"

interpretation start_method: errgroup_method "start_evolves Es emb" "\<lambda>i. Member_Start (Es i)"
  for Es emb
  by unfold_locales (auto simp: start_evolves_def intro: evolves_trans Member_Start_evolves)

interpretation stop_method: errgroup_method "evolves emb" "Stop_group Es"
  for Es emb
  by unfold_locales (auto intro: evolves_trans Stop_group_evolves)

interpretation wait_method:
  waiting_method "evolves emb" "\<lambda>i. Member_WaitForLeader (Es i) (ws i) clus"
  for emb Es ws clus
  by unfold_locales (auto intro: evolves_trans Member_WaitForLeader_evolves)

interpretation fetch_method:
  errgroup_method "evolves (embeddedClient clus)" "\<lambda>i. FetchMemberStatus (Es i) clus"
  for Es clus
  by unfold_locales (auto intro: evolves_trans FetchMemberStatus_evolves)

end
