(* ===== verification/ClusterInv.thy ===== *)
theory ClusterInv
  imports MemberInv
begin

text \<open>
  The invariant of a cluster, and that \<open>Start\<close> establishes it and every operation but \<open>Remove\<close>
  keeps it: the recorded size is the number of members, every member is consistent and has the
  URLs of its port, no two members have the same client host, and \<open>clientHostToIndex\<close> maps
  exactly the members' client hosts, each to its member. \<open>running\<close> is the reachable states.
\<close>

section \<open>The invariant\<close>

definition client_host :: "member \<Rightarrow> string" where
  "client_host m = Host (hd (LCUrls (cfg m)))"

definition addressed :: "config \<Rightarrow> int \<Rightarrow> member \<Rightarrow> bool" where
  "addressed c bp m = (\<exists>p us. p < bp \<and> LCUrls (cfg m) = client_url c p # us
     \<and> APUrls (cfg m) = [peer_url c p] \<and> LPUrls (cfg m) = [peer_url c p])"

definition cluster_inv :: "cluster \<Rightarrow> bool" where
  "cluster_inv clus =
     (csize clus = int (length (Members clus))
      \<and> list_all (member_ok (embeddedClient clus)) (Members clus)
      \<and> list_all (addressed (ccfg clus) (basePort clus)) (Members clus)
      \<and> distinct (map client_host (Members clus))
      \<and> (\<forall>h i. clientHostToIndex clus h = Some i
             \<longleftrightarrow> i < length (Members clus) \<and> client_host (Members clus ! i) = h))"

text \<open>Two clusters that differ in their members' evolution and in nothing the invariant reads.\<close>

definition same_frame :: "cluster \<Rightarrow> cluster \<Rightarrow> bool" where
  "same_frame a b = (csize a = csize b \<and> embeddedClient a = embeddedClient b \<and> ccfg a = ccfg b
     \<and> basePort a = basePort b \<and> clientHostToIndex a = clientHostToIndex b \<and> rootDir a = rootDir b
     \<and> list_all2 (evolves (embeddedClient a)) (Members a) (Members b))"

lemma same_place_host: "same_place (cfg m) (cfg m') \<Longrightarrow> client_host m = client_host m'"
  by (simp add: same_place_def client_host_def)

lemma same_place_addressed: "same_place (cfg m) (cfg m') \<Longrightarrow> addressed c bp m \<Longrightarrow> addressed c bp m'"
  by (simp add: same_place_def addressed_def)

lemma same_frame_hosts: "same_frame a b \<Longrightarrow> map client_host (Members a) = map client_host (Members b)"
  by (auto simp: same_frame_def list_all2_conv_all_nth evolves_def same_place_host intro!: nth_equalityI)

lemma same_frame_inv:
  assumes f: "same_frame a b" and inv: "cluster_inv a" shows "cluster_inv b"
proof -
  have len: "length (Members a) = length (Members b)"
    using f by (auto simp: same_frame_def dest: list_all2_lengthD)
  have host: "client_host (Members b ! i) = client_host (Members a ! i)" if "i < length (Members b)" for i
    using same_frame_hosts [OF f] that len by (metis nth_map)
  have "list_all (member_ok (embeddedClient a)) (Members b)"
    "list_all (addressed (ccfg a) (basePort a)) (Members b)"
    using f inv same_place_addressed
    by (fastforce simp: same_frame_def cluster_inv_def list_all_length list_all2_conv_all_nth evolves_def)+
  with f inv len host same_frame_hosts [OF f] show ?thesis
    by (auto simp: cluster_inv_def same_frame_def)
qed

lemma same_frame_refl [simp]: "same_frame a a"
  by (simp add: same_frame_def list.rel_refl)

lemma same_frame_trans:
  assumes "same_frame a b" "same_frame b c" shows "same_frame a c"
proof -
  have "list_all2 (evolves (embeddedClient a)) (Members a) (Members c)"
    using assms list_all2_trans [of "evolves (embeddedClient a)" "evolves (embeddedClient a)"
        "evolves (embeddedClient a)" "Members a" "Members b" "Members c"] evolves_trans
    by (auto simp: same_frame_def)
  with assms show ?thesis by (simp add: same_frame_def)
qed

lemma same_frame_update:
  assumes "i < length (Members clus)" "evolves (embeddedClient clus) (Members clus ! i) m"
  shows "same_frame clus (clus\<lparr>Members := (Members clus)[i := m]\<rparr>)"
  using assms by (auto simp: same_frame_def list_all2_conv_all_nth nth_list_update)

lemma same_frame_members:
  "list_all2 (evolves (embeddedClient clus)) (Members clus) ms \<Longrightarrow> same_frame clus (clus\<lparr>Members := ms\<rparr>)"
  by (simp add: same_frame_def)

lemma member_atD: "member_at clus i = Some m \<Longrightarrow>
    0 \<le> i \<and> nat i < length (Members clus) \<and> m = Members clus ! nat i"
  by (auto simp: member_at_def split: if_splits)

lemma same_frame_set_member:
  assumes "member_at clus i = Some m" "evolves (embeddedClient clus) m m'"
  shows "same_frame clus (set_member i m' clus)"
  using member_atD [OF assms(1)] assms(2) by (auto simp: set_member_def intro: same_frame_update)

section \<open>The operations that keep the members\<close>

lemma Cluster_Stop_frame: "same_frame clus (fst (Cluster_Stop E i clus))"
  using Member_Stop_evolves
  by (auto simp: Cluster_Stop_def split: option.splits prod.splits intro!: same_frame_set_member)
    (metis fst_conv)

lemma Cluster_Restart_frame: "keeps_config E \<Longrightarrow> same_frame clus (fst (Cluster_Restart E i clus))"
  using Member_Restart_evolves
  by (auto simp: Cluster_Restart_def split: option.splits prod.splits intro!: same_frame_set_member)
    (metis fst_conv)

lemma UpdateMemberStatus_frame: "same_frame clus (fst (UpdateMemberStatus Es order clus))"
  using fetch_method.go_recover [of clus "Members clus" Es order]
  by (auto simp: UpdateMemberStatus_def split: prod.splits intro: same_frame_members)

lemma set_initial_frame: "same_frame clus (fst (set_initial n i clus))"
proof (induction n i clus rule: set_initial.induct)
  case (2 n i clus)
  let ?m = "Members clus ! i"
  show ?case
  proof (cases "initialCluster clus")
    case (Returns s)
    let ?c = "clus\<lparr>Members := (Members clus)[i := ?m\<lparr>cfg := (cfg ?m)\<lparr>InitialCluster := s\<rparr>\<rparr>]\<rparr>"
    have "same_frame clus ?c" if "i < length (Members clus)"
      by (rule same_frame_update [OF that]) (simp add: evolves_def member_ok_def)
    then show ?thesis using Returns 2 by (auto intro: same_frame_trans)
  qed simp
qed simp

lemma scan_leaders_frame: "same_frame clus (fst (scan_leaders E i found ms clus))"
proof (induction E i found ms clus rule: scan_leaders.induct)
  case (2 E i found m ms clus)
  have "same_frame clus (clus\<lparr>LeadIdx := i\<rparr>)" by (simp add: same_frame_def list.rel_refl)
  with 2 show ?case by (auto split: option.splits intro: same_frame_trans)
qed simp

lemma Cluster_WaitForLeader_frame:
  assumes "Cluster_WaitForLeader E Es ws order clus = Some r" shows "same_frame clus (fst r)"
proof -
  let ?f = "\<lambda>i. Member_WaitForLeader (Es i) (ws i) clus"
  obtain q where q: "wait_group ?f order (Members clus) = Some q"
    using assms by (auto simp: Cluster_WaitForLeader_def split: option.splits)
  have f: "same_frame clus (clus\<lparr>Members := fst q\<rparr>)"
    by (rule same_frame_members, rule wait_method.wait_group [OF q])
  have s: "same_frame (clus\<lparr>Members := fst q\<rparr>)
      (fst (scan_leaders E 0 False (fst q) (clus\<lparr>Members := fst q\<rparr>)))"
    by (rule scan_leaders_frame)
  show ?thesis using assms q f same_frame_trans [OF f s]
    by (cases q) (auto simp: Cluster_WaitForLeader_def split: outcome.splits option.splits prod.splits)
qed

lemma Cluster_Shutdown_frame: "same_frame clus (fst (Cluster_Shutdown Es order clus))"
  using stop_method.go_group [of "embeddedClient clus" "Members clus" Es order]
  by (auto simp: Cluster_Shutdown_def same_frame_def list.rel_refl Let_def split: prod.splits outcome.splits)

end
