(* ===== verification/ClusterReach.thy ===== *)
theory ClusterReach
  imports ClusterInv
begin

text \<open>
  Adding members keeps the invariant, \<open>Start\<close> establishes it, and so every running cluster has
  it. Then the endpoints: \<open>FindIndex\<close> on any address a member advertises is its index.
\<close>

section \<open>Decimal ports\<close>

lemma is_digit_digit [simp]: "is_digit (digit n)"
proof -
  have "n mod 10 < 10" by simp
  then show ?thesis by (simp add: is_digit_def digit_def code_def of_char_of)
qed

lemma dec_digits: "list_all is_digit (dec n)"
  by (induction n rule: dec.induct) (subst dec.simps, simp)

lemma dec_int_inj: "dec_int a = dec_int b \<longleftrightarrow> a = b"
proof -
  have "dec n \<noteq> CHR ''-'' # s" for n s
    using dec_digits [of n] by (auto simp: is_digit_def code_def)
  then show ?thesis by (auto simp: dec_int_def dec_inj dest: sym)
qed

lemma plain_dec_int: "list_all plain_char (dec_int i)"
proof -
  have "list_all plain_char (dec n)" for n
    using dec_digits [of n] by (auto simp: list_all_iff plain_char_def is_alnum_def)
  then show ?thesis by (simp add: dec_int_def plain_char_def)
qed

lemma plain_localhost: "plain_host (local_host p)"
  using plain_dec_int [of p]
  by (simp add: local_host_def plain_host_def plain_char_def is_alnum_def is_lower_def code_def)

lemma local_host_inj: "local_host p = local_host q \<longleftrightarrow> p = q"
  by (simp add: local_host_def dec_int_inj)

section \<open>Adding a member\<close>

definition members_inv :: "int \<Rightarrow> cluster \<Rightarrow> bool" where
  "members_inv bp clus =
     (list_all (member_ok (embeddedClient clus)) (Members clus)
      \<and> list_all (addressed (ccfg clus) bp) (Members clus)
      \<and> distinct (map client_host (Members clus))
      \<and> (\<forall>h i. clientHostToIndex clus h = Some i
             \<longleftrightarrow> i < length (Members clus) \<and> client_host (Members clus ! i) = h))"

lemma cluster_inv_alt:
  "cluster_inv clus \<longleftrightarrow> csize clus = int (length (Members clus)) \<and> members_inv (basePort clus) clus"
  by (auto simp: cluster_inv_def members_inv_def)

lemma addressed_mono: "addressed c bp m \<Longrightarrow> bp \<le> bp' \<Longrightarrow> addressed c bp' m"
  unfolding addressed_def by (meson less_le_trans)

lemma addressed_host:
  "addressed c bp m \<Longrightarrow> \<exists>p<bp. client_host m = local_host p"
  by (auto simp: addressed_def client_host_def client_url_def)

lemma members_inv_append:
  assumes inv: "members_inv bp clus" and ok: "member_ok (embeddedClient clus) m"
    and ad: "addressed (ccfg clus) (bp + 2) m" and h: "client_host m = local_host bp"
  shows "members_inv (bp + 2) (clus\<lparr>Members := Members clus @ [m],
           clientHostToIndex := (clientHostToIndex clus)(client_host m \<mapsto> length (Members clus))\<rparr>)"
proof -
  have fresh: "client_host m' \<noteq> client_host m" if "m' \<in> set (Members clus)" for m'
  proof -
    have "addressed (ccfg clus) bp m'" using inv that by (simp add: members_inv_def list_all_iff)
    from addressed_host [OF this] obtain p where "p < bp" "client_host m' = local_host p" by blast
    then show ?thesis using h by (simp add: local_host_inj)
  qed
  have hosts: "client_host (Members clus ! i) \<noteq> client_host m" if "i < length (Members clus)" for i
    using that by (intro fresh) simp
  have maps: "((clientHostToIndex clus)(client_host m \<mapsto> length (Members clus))) k = Some i
      \<longleftrightarrow> i < length (Members clus @ [m]) \<and> client_host ((Members clus @ [m]) ! i) = k" for k i
  proof (cases "k = client_host m")
    case True
    then show ?thesis using hosts by (auto simp: nth_append less_Suc_eq)
  next
    case False
    then show ?thesis using inv by (auto simp: members_inv_def nth_append less_Suc_eq)
  qed
  have "list_all (addressed (ccfg clus) (bp + 2)) (Members clus)"
    using inv addressed_mono [of "ccfg clus" bp _ "bp + 2"] by (simp add: members_inv_def list_all_iff)
  moreover have "client_host m \<notin> client_host ` set (Members clus)" by (metis fresh imageE)
  ultimately show ?thesis using inv ok ad maps unfolding members_inv_def by auto
qed

lemma new_member_facts:
  fixes E c root dh flag k port
  defines "m \<equiv> new_member (member_config E c root dh flag k port) (client_url c port)"
    and "m' \<equiv> new_member (with_logger (member_config E c root dh flag k port)) (client_url c port)"
  shows "member_ok emb m" "member_ok emb m'"
    "addressed c (port + 2) m" "addressed c (port + 2) m'"
    "client_host m = Host (client_url c port)" "client_host m' = Host (client_url c port)"
proof -
  have cfgs: "(\<exists>us. LCUrls (cfg x) = client_url c port # us)
      \<and> APUrls (cfg x) = [peer_url c port] \<and> LPUrls (cfg x) = [peer_url c port]
      \<and> status x = empty_status\<lparr>Name := CfgName (cfg x), Endpoint := url_string (client_url c port),
          IsLeader := False, State := StoppedMemberStatus\<rparr>" if "x = m \<or> x = m'" for x
    using that by (auto simp: m_def m'_def new_member_def member_config_def with_logger_def Let_def
        split: if_splits)
  have "member_ok emb x \<and> addressed c (port + 2) x \<and> client_host x = Host (client_url c port)"
    if "x = m \<or> x = m'" for x
    using cfgs [OF that] unfolding addressed_def member_ok_def client_host_def
    by (auto simp: empty_status_def intro!: exI [of _ port])
  then show "member_ok emb m" "member_ok emb m'"
    "addressed c (port + 2) m" "addressed c (port + 2) m'"
    "client_host m = Host (client_url c port)" "client_host m' = Host (client_url c port)"
    by blast+
qed

lemma client_url_host [simp]: "Host (client_url c port) = local_host port"
  by (simp add: client_url_def)

lemma Add_member_inv:
  assumes "cluster_inv clus" shows "cluster_inv (fst (Add_member E clus))"
proof -
  let ?ec = "member_config E (ccfg clus) (rootDir clus) (dhost_of E) ClusterStateFlagExisting
                 (csize clus + 1) (basePort clus)"
  let ?m = "new_member ?ec (client_url (ccfg clus) (basePort clus))"
  have "members_inv (basePort clus + 2) (clus\<lparr>Members := Members clus @ [?m],
      clientHostToIndex := (clientHostToIndex clus)(client_host ?m \<mapsto> length (Members clus))\<rparr>)"
    by (rule members_inv_append)
      (use assms in \<open>simp_all add: new_member_facts cluster_inv_alt\<close>)
  with assms show ?thesis
    by (simp add: Add_member_def Let_def cluster_inv_alt members_inv_def new_member_facts)
qed

lemma Cluster_Add_inv:
  assumes inv: "cluster_inv clus" and env: "keeps_config E"
  shows "cluster_inv (fst (Cluster_Add E clus))"
proof -
  obtain c1 evs where a: "Add_member E clus = (c1, evs)" by (cases "Add_member E clus")
  obtain c2 r where s: "set_initial (nat (csize c1)) 0 c1 = (c2, r)"
    by (cases "set_initial (nat (csize c1)) 0 c1")
  have "cluster_inv c1" using Add_member_inv [OF inv, of E] a by simp
  then have inv2: "cluster_inv c2"
    using set_initial_frame [of c1 "nat (csize c1)" 0] s by (simp add: same_frame_inv)
  have start: "cluster_inv (set_member i (fst (Member_Start E m)) c2)" if "member_at c2 i = Some m" for i m
    using same_frame_inv [OF same_frame_set_member [OF that Member_Start_evolves [OF env]] inv2] .
  show ?thesis using a s inv2 start
    by (auto simp: Cluster_Add_def Let_def split: outcome.splits option.splits list.splits prod.splits)
      (metis fst_conv)
qed

section \<open>Start\<close>

lemma build_loop_inv:
  assumes "members_inv port clus" "ccfg clus = c" "build_loop E c n clus port = (clus', port', evs)"
  shows "members_inv port' clus' \<and> length (Members clus') = length (Members clus) + n
    \<and> port' = port + 2 * int n \<and> csize clus' = csize clus \<and> ccfg clus' = c
    \<and> embeddedClient clus' = embeddedClient clus"
  using assms
proof (induction n arbitrary: clus port evs)
  case 0
  then show ?case by simp
next
  case (Suc n)
  let ?ec = "with_logger (member_config E c (RootDir c) (dhost_of E) ClusterStateFlagNew
      (int (length (Members clus)) + 1) port)"
  let ?m = "new_member ?ec (client_url c port)"
  let ?c = "clus\<lparr>Members := Members clus @ [?m],
      clientHostToIndex := (clientHostToIndex clus)(local_host port \<mapsto> length (Members clus))\<rparr>"
  obtain evs' where b: "build_loop E c n ?c (port + 2) = (clus', port', evs')"
    using Suc.prems(3) by (auto simp: Let_def split: prod.splits)
  have "members_inv (port + 2) (clus\<lparr>Members := Members clus @ [?m],
      clientHostToIndex := (clientHostToIndex clus)(client_host ?m \<mapsto> length (Members clus))\<rparr>)"
    by (rule members_inv_append) (use Suc.prems in \<open>simp_all add: new_member_facts\<close>)
  then have "members_inv (port + 2) ?c" by (simp add: new_member_facts)
  from Suc.IH [OF this _ b] Suc.prems(2) show ?case by auto
qed

lemma empty_cluster_inv: "members_inv bp (empty_cluster E c)"
  by (simp add: members_inv_def empty_cluster_def)

lemma Start_configure_inv:
  assumes "Start_configure E c = (evs, Returns (Inr clus))"
  shows "cluster_inv clus \<and> csize clus = Config_Size c \<and> ccfg clus = c
    \<and> embeddedClient clus = EmbeddedClient c"
proof -
  have n: "0 \<le> Config_Size c" using assms by (auto simp: Start_configure_def split: if_splits)
  let ?n = "nat (Config_Size c)"
  obtain b port evs1 where b: "build_loop E c ?n (empty_cluster E c) (RootPort c) = (b, port, evs1)"
    by (cases "build_loop E c ?n (empty_cluster E c) (RootPort c)")
  have clus: "fst (set_initial ?n 0 (b\<lparr>basePort := port\<rparr>)) = clus"
    using assms b
    by (auto simp: Start_configure_def split: if_splits prod.splits option.splits outcome.splits)
  have bl: "members_inv port b \<and> length (Members b) = ?n \<and> csize b = Config_Size c \<and> ccfg b = c
      \<and> embeddedClient b = EmbeddedClient c"
    using build_loop_inv [OF empty_cluster_inv _ b] by (auto simp: empty_cluster_def)
  then have "cluster_inv (b\<lparr>basePort := port\<rparr>)"
    using n by (auto simp: cluster_inv_alt members_inv_def)
  with set_initial_frame [of "b\<lparr>basePort := port\<rparr>" ?n 0] clus bl show ?thesis
    using same_frame_inv [of "b\<lparr>basePort := port\<rparr>" clus] by (auto simp: same_frame_def)
qed

lemma start_group_frame:
  assumes "\<forall>i. keeps_config (Es i)"
  shows "same_frame clus (clus\<lparr>Members := fst (go_group (\<lambda>i. Member_Start (Es i)) order (Members clus))\<rparr>)"
  using start_method.go_group [of Es "embeddedClient clus" "Members clus" order] assms
  by (intro same_frame_members) (auto simp: start_evolves_def elim: list_all2_mono)

lemma Cluster_Start_inv:
  assumes "Cluster_Start E Es ws order order' c = Some (Some clus, evs, r)"
    and "\<forall>i. keeps_config (Es i)"
  shows "cluster_inv clus \<and> csize clus = Config_Size c \<and> ccfg clus = c
    \<and> embeddedClient clus = EmbeddedClient c"
proof -
  from assms(1) obtain c0 evs0 where s: "Start_configure E c = (evs0, Returns (Inr c0))"
    by (auto simp: Cluster_Start_def split: prod.splits outcome.splits sum.splits)
  let ?c1 = "c0\<lparr>Members := fst (go_group (\<lambda>i. Member_Start (Es i)) order (Members c0))\<rparr>"
  from assms(1) s obtain q where q: "Cluster_WaitForLeader E Es ws order' ?c1 = Some q" "fst q = clus"
    by (auto simp: Cluster_Start_def split: prod.splits outcome.splits option.splits)
  have "same_frame c0 clus"
    using same_frame_trans [OF start_group_frame [OF assms(2)] Cluster_WaitForLeader_frame [OF q(1)]] q(2)
    by simp
  with Start_configure_inv [OF s] show ?thesis
    using same_frame_inv [of c0 clus] by (auto simp: same_frame_def)
qed

section \<open>Running clusters\<close>

text \<open>A step is one operation, with any outcome, in any world that keeps the configuration of the
  servers it starts. \<open>Remove\<close> is not a step: it has theorems of its own.\<close>

inductive cluster_step :: "cluster \<Rightarrow> cluster \<Rightarrow> bool" where
  stop: "Cluster_Stop E i clus = (clus', evs, r) \<Longrightarrow> cluster_step clus clus'"
| restart: "keeps_config E \<Longrightarrow> Cluster_Restart E i clus = (clus', evs, r') \<Longrightarrow> cluster_step clus clus'"
| add: "keeps_config E \<Longrightarrow> Cluster_Add E clus = (clus', evs, r') \<Longrightarrow> cluster_step clus clus'"
| update: "UpdateMemberStatus Es order clus = (clus', evs) \<Longrightarrow> cluster_step clus clus'"
| leader: "Cluster_WaitForLeader E Es ws order clus = Some (clus', evs, r') \<Longrightarrow> cluster_step clus clus'"
| shutdown: "Cluster_Shutdown Es order clus = (clus', evs, r) \<Longrightarrow> cluster_step clus clus'"
| dial_timeout: "cluster_step clus (SetClientDialTimeout d clus)"

inductive running :: "cluster \<Rightarrow> bool" where
  start: "Cluster_Start E Es ws order order' c = Some (Some clus, evs, r) \<Longrightarrow>
     \<forall>i. keeps_config (Es i) \<Longrightarrow> running clus"
| step: "running clus \<Longrightarrow> cluster_step clus clus' \<Longrightarrow> running clus'"

inductive_cases cluster_stepE: "cluster_step clus clus'"

lemma cluster_step_inv:
  assumes "cluster_step clus clus'" "cluster_inv clus" shows "cluster_inv clus'"
  using assms(1)
proof cases
  case (stop E i evs r)
  then show ?thesis using same_frame_inv [OF Cluster_Stop_frame assms(2)] by (metis fst_conv)
next
  case (restart E i evs r')
  then show ?thesis using same_frame_inv [OF Cluster_Restart_frame assms(2)] by (metis fst_conv)
next
  case (add E evs r')
  then show ?thesis using Cluster_Add_inv [OF assms(2)] by (metis fst_conv)
next
  case (update Es order evs)
  then show ?thesis using same_frame_inv [OF UpdateMemberStatus_frame assms(2)] by (metis fst_conv)
next
  case (leader E Es ws order evs r')
  then show ?thesis using same_frame_inv [OF Cluster_WaitForLeader_frame assms(2)] by (metis fst_conv)
next
  case (shutdown Es order evs r)
  then show ?thesis using same_frame_inv [OF Cluster_Shutdown_frame assms(2)] by (metis fst_conv)
next
  case (dial_timeout d)
  then show ?thesis using assms(2) by (simp add: SetClientDialTimeout_def cluster_inv_def)
qed

lemma running_inv: "running clus \<Longrightarrow> cluster_inv clus"
  by (induction rule: running.induct) (auto dest: Cluster_Start_inv cluster_step_inv)

section \<open>Finding a member by its address\<close>

lemma addressed_found:
  assumes "addressed c bp m" "u = hd (LCUrls (cfg m))"
  shows "getHost (url_text scheme u) = client_host m"
proof -
  obtain p where u: "u = client_url c p" "client_host m = local_host p"
    using assms by (auto simp: addressed_def client_host_def)
  have "Scheme u \<in> {''http'', ''https''}" by (simp add: u client_url_def ClientScheme_def)
  with u show ?thesis
    using getHost_url_string [OF plain_localhost [of p], of "Scheme u"] getHost_plain [OF plain_localhost [of p]]
    by (cases scheme) (simp_all add: url_text_def client_url_def)
qed

lemma FindIndex_member:
  assumes "cluster_inv clus" "i < length (Members clus)"
  shows "FindIndex clus (url_text scheme (hd (LCUrls (cfg (Members clus ! i))))) = int i"
proof -
  have "addressed (ccfg clus) (basePort clus) (Members clus ! i)"
    using assms by (simp add: cluster_inv_def list_all_length)
  from addressed_found [OF this refl] have "getHost (url_text scheme (hd (LCUrls (cfg (Members clus ! i)))))
      = client_host (Members clus ! i)" .
  moreover have "clientHostToIndex clus (client_host (Members clus ! i)) = Some i"
    using assms by (simp add: cluster_inv_def)
  ultimately show ?thesis by (simp add: FindIndex_def)
qed

lemma FindIndex_range:
  assumes "cluster_inv clus"
  shows "FindIndex clus ep = - 1 \<or> 0 \<le> FindIndex clus ep \<and> FindIndex clus ep < int (length (Members clus))"
  using assms by (auto simp: FindIndex_def cluster_inv_def split: option.splits)

text \<open>The index holds the hosts of the members' first client URLs and no others.\<close>

lemma FindIndex_iff:
  assumes "cluster_inv clus"
  shows "FindIndex clus ep = int i \<longleftrightarrow> i < length (Members clus) \<and> getHost ep = client_host (Members clus ! i)"
proof -
  have "FindIndex clus ep = int i \<longleftrightarrow> clientHostToIndex clus (getHost ep) = Some i"
    by (simp add: FindIndex_def split: option.split)
  then show ?thesis using assms by (auto simp: cluster_inv_def)
qed

lemma FindIndex_none:
  assumes "cluster_inv clus" "\<forall>m \<in> set (Members clus). getHost ep \<noteq> client_host m"
  shows "FindIndex clus ep = - 1"
proof (cases "clientHostToIndex clus (getHost ep)")
  case (Some i)
  then have "i < length (Members clus)" "client_host (Members clus ! i) = getHost ep"
    using assms(1) by (simp_all add: cluster_inv_def)
  then show ?thesis using assms(2) by (metis nth_mem)
qed (simp add: FindIndex_def)

end
