(* ===== verification/ClusterFacts.thy ===== *)
theory ClusterFacts
  imports ClusterReach
begin

text \<open>
  What the operations do, member by member: the result of a group of goroutines is the same
  for every order in which they complete; \<open>Stop\<close> and \<open>Restart\<close> change one member; \<open>Remove\<close>;
  the scan for the leader.
\<close>

section \<open>Groups, pointwise\<close>

definition panics_in :: "(nat \<Rightarrow> member \<Rightarrow> member \<times> event list \<times> 'r outcome) \<Rightarrow> member list \<Rightarrow> nat \<Rightarrow> bool" where
  "panics_in f ms i = (\<exists>p. snd (snd (f i (ms ! i))) = Panics p)"

definition run_all :: "(nat \<Rightarrow> member \<Rightarrow> member \<times> 'e) \<Rightarrow> nat set \<Rightarrow> member list \<Rightarrow> member list" where
  "run_all f is ms = map (\<lambda>i. if i \<in> is then fst (f i (ms ! i)) else ms ! i) [0..<length ms]"

lemma run_all_length [simp]: "length (run_all f is ms) = length ms"
  by (simp add: run_all_def)

lemma run_all_empty [simp]: "run_all f {} ms = ms"
  by (simp add: run_all_def map_nth)

lemma run_all_nth:
  "i < length ms \<Longrightarrow> run_all f is ms ! i = (if i \<in> is then fst (f i (ms ! i)) else ms ! i)"
  by (simp add: run_all_def)

lemma run_all_insert:
  assumes "i < length ms" "i \<notin> is"
  shows "run_all f is (ms[i := fst (f i (ms ! i))]) = run_all f (insert i is) ms"
  using assms by (intro nth_equalityI) (auto simp: run_all_nth nth_list_update)

lemma go_group_pointwise:
  assumes "distinct order" "set order \<subseteq> {..<length ms}" "\<forall>i\<in>set order. \<not> panics_in f ms i"
  shows "fst (go_group f order ms) = run_all f (set order) ms
    \<and> fst (snd (go_group f order ms)) = concat (map (\<lambda>i. fst (snd (f i (ms ! i)))) order)
    \<and> (\<exists>r. snd (snd (go_group f order ms)) = Returns r
         \<and> (r = None \<longleftrightarrow> (\<forall>i\<in>set order. snd (snd (f i (ms ! i))) = Returns None)))"
  using assms
proof (induction order arbitrary: ms)
  case Nil
  then show ?case by simp
next
  case (Cons i order)
  have i: "i < length ms" "i \<notin> set order" using Cons.prems by auto
  obtain m' evs err where f: "f i (ms ! i) = (m', evs, Returns err)"
    using Cons.prems(3) by (cases "f i (ms ! i)", cases "snd (snd (f i (ms ! i)))") (auto simp: panics_in_def)
  let ?ms = "ms[i := m']"
  have nth: "?ms ! j = ms ! j" if "j \<in> set order" for j
    using that i by (metis nth_list_update_neq)
  have np: "\<forall>j\<in>set order. \<not> panics_in f ?ms j"
    using Cons.prems(3) nth by (simp add: panics_in_def)
  have "set order \<subseteq> {..<length ?ms}" "distinct order" using Cons.prems by auto
  note IH = Cons.IH [OF this(2,1) np]
  have ev: "map (\<lambda>j. fst (snd (f j (?ms ! j)))) order = map (\<lambda>j. fst (snd (f j (ms ! j)))) order"
    using nth by simp
  have run: "run_all f (set order) ?ms = run_all f (insert i (set order)) ms"
    using run_all_insert [OF i, of f] f by simp
  have none: "(\<forall>j\<in>set order. snd (snd (f j (?ms ! j))) = Returns None)
      \<longleftrightarrow> (\<forall>j\<in>set order. snd (snd (f j (ms ! j))) = Returns None)" using nth by simp
  obtain ms' evs' r where g: "go_group f order ?ms = (ms', evs', Returns r)"
    using IH by (cases "go_group f order ?ms") auto
  show ?case using IH i f g ev run none by (cases err) auto
qed

lemma go_recover_pointwise:
  assumes "distinct order" "set order \<subseteq> {..<length ms}"
  shows "fst (go_recover f order ms) = run_all f (set order) ms"
  using assms
proof (induction order arbitrary: ms)
  case Nil
  then show ?case by simp
next
  case (Cons i order)
  have i: "i < length ms" "i \<notin> set order" using Cons.prems by auto
  obtain m' evs r where f: "f i (ms ! i) = (m', evs, r)" by (cases "f i (ms ! i)") auto
  have "fst (go_recover f order (ms[i := m'])) = run_all f (set order) (ms[i := m'])"
    using Cons by auto
  also have "\<dots> = run_all f (insert i (set order)) ms" using run_all_insert [OF i, of f] f by simp
  finally show ?case using i f by (auto split: prod.splits)
qed

section \<open>Counting\<close>

lemma count_active_eq: "count_active ms cnt = cnt + length (filter (\<lambda>m. \<not> is_stopped m) ms)"
  by (induction ms cnt rule: count_active.induct) (auto simp: is_stopped_def)

lemma ActiveNodeN_eq: "ActiveNodeN clus = length (filter (\<lambda>m. \<not> is_stopped m) (Members clus))"
  by (simp add: ActiveNodeN_def count_active_eq)

lemma filter_update:
  assumes "i < length xs"
  shows "length (filter P (xs[i := x])) + (if P (xs ! i) then 1 else 0)
       = length (filter P xs) + (if P x then 1 else 0)"
  using assms
proof (induction xs arbitrary: i)
  case (Cons y ys)
  show ?case
  proof (cases i)
    case (Suc j)
    then have "j < length ys" using Cons.prems by simp
    from Cons.IH [OF this] Suc show ?thesis by simp
  qed simp
qed simp

section \<open>Stop and Restart\<close>

lemma member_at_set_member:
  assumes "member_at clus i = Some m"
  shows "member_at (set_member i m' clus) j = (if j = i then Some m' else member_at clus j)"
  using assms by (auto simp: member_at_def set_member_def nth_list_update split: if_splits)

lemma ActiveNodeN_set_member:
  assumes "member_at clus i = Some m"
  shows "ActiveNodeN (set_member i m' clus) + (if is_stopped m then 0 else 1)
       = ActiveNodeN clus + (if is_stopped m' then 0 else 1)"
  using filter_update [of "nat i" "Members clus" "\<lambda>m. \<not> is_stopped m" m'] member_atD [OF assms]
  by (auto simp: ActiveNodeN_eq set_member_def split: if_splits)

lemma Quorum_set_member [simp]: "Quorum (set_member i m clus) = Quorum clus"
  by (simp add: Quorum_def set_member_def)

lemma Cluster_Stop_running:
  assumes "member_at clus i = Some m" "srv m = Some s" "\<not> is_stopped m"
  shows "\<exists>m'. Cluster_Stop E i clus = (set_member i m' clus, [CloseEtcd s], Returns ())
     \<and> is_stopped m' \<and> cfg m' = cfg m \<and> srv m' = srv m \<and> \<not> IsLeader (status m')"
  using assms
  by (intro exI [of _ "m\<lparr>stoppedStartedAt := clock E 0, status := stopped_status E (clock E 0) (status m)\<rparr>"])
    (simp add: Cluster_Stop_def Member_Stop_def is_stopped_def)

lemma set_member_self: "member_at clus i = Some m \<Longrightarrow> set_member i m clus = clus"
  using member_atD [of clus i m] by (auto simp: set_member_def)

lemma Cluster_Stop_stopped:
  assumes "member_at clus i = Some m" "srv m = Some s" "is_stopped m"
  shows "Cluster_Stop E i clus = (clus, [], Returns ())"
  using assms set_member_self [OF assms(1)]
  by (simp add: Cluster_Stop_def Member_Stop_def is_stopped_def)

section \<open>Remove\<close>

lemma remove_nth_length: "i < length xs \<Longrightarrow> length (remove_nth i xs) = length xs - 1"
  by (simp add: remove_nth_def)

lemma remove_nth_nth:
  "i < length xs \<Longrightarrow> j < length xs - 1 \<Longrightarrow> remove_nth i xs ! j = (if j < i then xs ! j else xs ! Suc j)"
  by (auto simp: remove_nth_def nth_append min_def)

lemma reindex_ok:
  assumes "\<forall>m\<in>set ms. LCUrls (cfg m) \<noteq> []"
  shows "\<exists>hm'. reindex j ms hm = (hm', Returns ())
     \<and> (\<forall>h. h \<notin> client_host ` set ms \<longrightarrow> hm' h = hm h)
     \<and> (distinct (map client_host ms) \<longrightarrow> (\<forall>k < length ms. hm' (client_host (ms ! k)) = Some (j + k)))"
  using assms
proof (induction ms arbitrary: j hm)
  case Nil
  then show ?case by simp
next
  case (Cons m ms)
  from Cons.prems have "\<forall>m\<in>set ms. LCUrls (cfg m) \<noteq> []" by simp
  obtain u us where u: "LCUrls (cfg m) = u # us" using Cons.prems by (auto simp: neq_Nil_conv)
  from Cons.IH [OF \<open>\<forall>m\<in>set ms. LCUrls (cfg m) \<noteq> []\<close>, of "Suc j" "hm(client_host m \<mapsto> j)"]
  obtain hm' where hm': "reindex (Suc j) ms (hm(client_host m \<mapsto> j)) = (hm', Returns ())"
      "\<forall>h. h \<notin> client_host ` set ms \<longrightarrow> hm' h = (hm(client_host m \<mapsto> j)) h"
      "distinct (map client_host ms) \<longrightarrow> (\<forall>k < length ms. hm' (client_host (ms ! k)) = Some (Suc j + k))"
    by blast
  have "client_host m = Host u" using u by (simp add: client_host_def)
  moreover have "hm' (client_host ((m # ms) ! k)) = Some (j + k)"
    if "distinct (map client_host (m # ms))" "k < length (m # ms)" for k
    using that hm'(2,3) by (cases k) auto
  ultimately show ?case using hm' u by auto
qed

lemma addressed_urls: "addressed c bp m \<Longrightarrow> LCUrls (cfg m) \<noteq> []"
  by (auto simp: addressed_def)

lemma Remove_reindex:
  assumes inv: "cluster_inv clus" and i: "i < length (Members clus)"
  defines "ms \<equiv> remove_nth i (Members clus)"
  shows "\<exists>hm. reindex 0 ms (clientHostToIndex clus) = (hm, Returns ())
     \<and> hm (client_host (Members clus ! i)) = Some i
     \<and> (\<forall>k < length ms. hm (client_host (ms ! k)) = Some k)"
proof -
  have sub: "set ms \<subseteq> set (Members clus)"
    by (auto simp: ms_def remove_nth_def dest: in_set_takeD in_set_dropD)
  have "\<forall>m\<in>set (Members clus). addressed (ccfg clus) (basePort clus) m"
    using inv by (simp add: cluster_inv_def list_all_iff)
  then have urls: "\<forall>m\<in>set ms. LCUrls (cfg m) \<noteq> []" using addressed_urls sub by blast
  have split: "Members clus = take i (Members clus) @ Members clus ! i # drop (Suc i) (Members clus)"
    using i by (rule id_take_nth_drop)
  have dist: "distinct (map client_host (Members clus))" using inv by (simp add: cluster_inv_def)
  then have d: "distinct (map client_host (take i (Members clus) @ Members clus ! i # drop (Suc i) (Members clus)))"
    using split by metis
  then have "distinct (map client_host ms)" "client_host (Members clus ! i) \<notin> client_host ` set ms"
    unfolding ms_def remove_nth_def by auto
  moreover have "clientHostToIndex clus (client_host (Members clus ! i)) = Some i"
    using inv i by (simp add: cluster_inv_def)
  ultimately show ?thesis using reindex_ok [OF urls, of 0 "clientHostToIndex clus"] by force
qed

section \<open>The leader\<close>

definition leaders :: "member list \<Rightarrow> nat set" where
  "leaders ms = {i. i < length ms \<and> IsLeader (status (ms ! i))}"

lemma leaders_Cons:
  "leaders (m # ms) = (if IsLeader (status m) then {0} else {}) \<union> Suc ` leaders ms"
proof (rule set_eqI)
  fix i
  show "i \<in> leaders (m # ms) \<longleftrightarrow> i \<in> (if IsLeader (status m) then {0} else {}) \<union> Suc ` leaders ms"
    by (cases i) (auto simp: leaders_def)
qed

lemma leaders_Nil [simp]: "leaders [] = {}"
  by (simp add: leaders_def)

lemma scan_found:
  assumes "scan_leaders E i True ms clus = (clus', Returns None)"
  shows "clus' = clus \<and> leaders ms = {}"
  using assms
  by (induction ms arbitrary: i) (auto simp: leaders_Cons split: if_splits option.splits)

lemma scan_leaders_result:
  assumes "scan_leaders E i False ms clus = (clus', Returns None)"
  shows "leaders ms = {} \<and> clus' = clus \<or> (\<exists>k. leaders ms = {k} \<and> clus' = clus\<lparr>LeadIdx := i + k\<rparr>)"
  using assms
proof (induction ms arbitrary: i)
  case (Cons m ms)
  show ?case
  proof (cases "IsLeader (status m)")
    case True
    then have "scan_leaders E (Suc i) True ms (clus\<lparr>LeadIdx := i\<rparr>) = (clus', Returns None)"
      using Cons.prems by (auto split: option.splits)
    from scan_found [OF this] True show ?thesis by (auto simp: leaders_Cons intro!: exI [of _ 0])
  next
    case False
    then show ?thesis using Cons.prems Cons.IH [of "Suc i"] by (fastforce simp: leaders_Cons)
  qed
qed simp

end
