(* ===== verification/ClusterStart.thy ===== *)
theory ClusterStart
  imports ClusterFacts
begin

text \<open>
  What \<open>Start\<close> configures: when it succeeds, and each member's name, addresses and initial
  cluster. A sample world, in which \<open>Start\<close> runs to the end, is at the end of the theory.
\<close>

section \<open>The members\<close>

definition with_initial :: "string \<Rightarrow> member \<Rightarrow> member" where
  "with_initial s m = m\<lparr>cfg := (cfg m)\<lparr>InitialCluster := s\<rparr>\<rparr>"

lemma initial_entry_with_initial [simp]: "initial_entry (with_initial s m) = initial_entry m"
  by (simp add: with_initial_def initial_entry_def split: list.splits)

lemma initialCluster_cong:
  "map initial_entry (Members a) = map initial_entry (Members b) \<Longrightarrow> initialCluster a = initialCluster b"
  by (simp add: initialCluster_def)

lemma set_initial_result:
  assumes "initialCluster clus = Returns s" "i + n \<le> length (Members clus)"
  shows "\<exists>ms. set_initial n i clus = (clus\<lparr>Members := ms\<rparr>, Returns ())
     \<and> length ms = length (Members clus)
     \<and> (\<forall>j < length ms. ms ! j = (if i \<le> j \<and> j < i + n then with_initial s (Members clus ! j)
                               else Members clus ! j))"
  using assms
proof (induction n arbitrary: i clus)
  case 0
  then show ?case by (intro exI [of _ "Members clus"]) auto
next
  case (Suc n)
  let ?c = "clus\<lparr>Members := (Members clus)[i := with_initial s (Members clus ! i)]\<rparr>"
  have i: "i < length (Members clus)" using Suc.prems by simp
  have "map initial_entry (Members ?c) = map initial_entry (Members clus)"
    using i by (simp add: map_update list_update_same_conv)
  then have "initialCluster ?c = Returns s" using Suc.prems initialCluster_cong by metis
  moreover have "Suc i + n \<le> length (Members ?c)" using Suc.prems by simp
  ultimately obtain ms where ms: "set_initial n (Suc i) ?c = (?c\<lparr>Members := ms\<rparr>, Returns ())"
    "length ms = length (Members ?c)"
    "\<forall>j < length ms. ms ! j = (if Suc i \<le> j \<and> j < Suc i + n then with_initial s (Members ?c ! j)
                               else Members ?c ! j)"
    using Suc.IH by blast
  have "set_initial (Suc n) i clus = (clus\<lparr>Members := ms\<rparr>, Returns ())"
    using ms(1) i Suc.prems(1) by (simp add: with_initial_def)
  moreover have "ms ! j = (if i \<le> j \<and> j < i + Suc n then with_initial s (Members clus ! j)
                               else Members clus ! j)" if "j < length ms" for j
    using ms(2,3) that i by (auto simp: nth_list_update)
  ultimately show ?case using ms(2) by (intro exI [of _ ms]) simp
qed

definition start_member :: "env \<Rightarrow> config \<Rightarrow> nat \<Rightarrow> member" where
  "start_member E c i =
     new_member (with_logger (member_config E c (RootDir c) (dhost_of E) ClusterStateFlagNew
         (int i + 1) (RootPort c + 2 * int i))) (client_url c (RootPort c + 2 * int i))"

lemma build_loop_members:
  assumes "build_loop E c n clus port = (clus', port', evs)"
    and "port = RootPort c + 2 * int (length (Members clus))"
  shows "Members clus' = Members clus
     @ map (start_member E c) [length (Members clus)..<length (Members clus) + n]"
  using assms
proof (induction n arbitrary: clus port evs)
  case 0
  then show ?case by simp
next
  case (Suc n)
  let ?m = "start_member E c (length (Members clus))"
  let ?c = "clus\<lparr>Members := Members clus @ [?m],
      clientHostToIndex := (clientHostToIndex clus)(local_host port \<mapsto> length (Members clus))\<rparr>"
  obtain evs' where b: "build_loop E c n ?c (port + 2) = (clus', port', evs')"
    using Suc.prems by (auto simp: Let_def start_member_def split: prod.splits)
  have p: "port + 2 = RootPort c + 2 * int (length (Members ?c))" using Suc.prems(2) by simp
  have "[length (Members clus)..<length (Members clus) + Suc n]
      = length (Members clus) # [Suc (length (Members clus))..<Suc (length (Members clus) + n)]"
    by (simp add: upt_rec [of "length (Members clus)"])
  with Suc.IH [OF b p] show ?case by simp
qed

lemma start_member_entry: "initial_entry (start_member E c i) \<noteq> None"
  by (simp add: start_member_def new_member_def with_logger_def member_config_def Let_def
      initial_entry_def)

lemma those_Some: "\<forall>x\<in>set xs. x \<noteq> None \<Longrightarrow> \<exists>ys. those xs = Some ys"
  by (induction xs) auto

text \<open>The cluster \<open>Start\<close> has when it starts the members.\<close>

lemma Start_configure_result:
  assumes size: "0 \<le> Config_Size c" "Config_Size c \<le> 7"
    and dir: "snd (root_dir E c) = None"
    and tls: "\<not> (\<not> TLS_Empty (PeerTLSInfo c) \<and> PeerAutoTLS c)"
      "\<not> (\<not> TLS_Empty (ClientTLSInfo c) \<and> ClientAutoTLS c)"
  shows "\<exists>evs clus s. Start_configure E c = (evs, Returns (Inr clus))
     \<and> initialCluster clus = Returns s
     \<and> Members clus = map (\<lambda>i. with_initial s (start_member E c i)) [0..<nat (Config_Size c)]"
proof -
  let ?n = "nat (Config_Size c)"
  obtain evs where d: "root_dir E c = (evs, None)" using dir by (cases "root_dir E c") auto
  obtain b port evs1 where b: "build_loop E c ?n (empty_cluster E c) (RootPort c) = (b, port, evs1)"
    by (cases "build_loop E c ?n (empty_cluster E c) (RootPort c)")
  have mb: "Members b = map (start_member E c) [0..<?n]"
    using build_loop_members [OF b] by (simp add: empty_cluster_def)
  let ?b = "b\<lparr>basePort := port\<rparr>"
  have "\<forall>x\<in>set (map initial_entry (Members b)). x \<noteq> None" using mb start_member_entry by auto
  from those_Some [OF this] obtain s where s: "initialCluster ?b = Returns s"
    by (auto simp: initialCluster_def)
  obtain ms where ms: "set_initial ?n 0 ?b = (?b\<lparr>Members := ms\<rparr>, Returns ())"
    "length ms = length (Members b)" "\<forall>j < length ms. ms ! j = with_initial s (Members b ! j)"
    using set_initial_result [OF s, of 0 ?n] mb by auto
  have eq: "ms = map (\<lambda>i. with_initial s (start_member E c i)) [0..<?n]"
    by (rule nth_equalityI) (use ms(2,3) mb in auto)
  have "map initial_entry ms = map initial_entry (Members b)" by (simp add: eq mb)
  then have "initialCluster (?b\<lparr>Members := ms\<rparr>) = Returns s"
    using s initialCluster_cong [of "?b\<lparr>Members := ms\<rparr>" ?b] by simp
  moreover have "Start_configure E c = (evs @ evs1, Returns (Inr (?b\<lparr>Members := ms\<rparr>)))"
    using size tls d b ms(1) by (simp add: Start_configure_def)
  ultimately show ?thesis using eq by auto
qed

section \<open>A sample world\<close>

text \<open>Three servers that start at once; the first is elected.\<close>

definition sample_env :: env where
  "sample_env = \<lparr>
     start_etcd = \<lambda>c. Inr (0, c),
     etcd_id = \<lambda>s. of_nat (257 + s), started_event = \<lambda>s. ReadyNotify,
     stopped_event = \<lambda>s. ErrChan None, clock = \<lambda>k. 1000 + int k,
     humanize_time = \<lambda>t. ''now'', humanize_bytes = \<lambda>n. ''4 kB'',
     client_tls = \<lambda>t. Inr 0, v3client_New = \<lambda>s. s, clientv3_New = \<lambda>c. Inr 0,
     rpc_status = \<lambda>c ep. Inr \<lparr>MemberId = of_nat (257 + c), RespLeader = 257, DbSize = 4096\<rparr>,
     grpc_dial = \<lambda>h t. None, rpc_hash = \<lambda>h. Inr 7,
     rpc_member_add = \<lambda>c us. None, rpc_member_remove = \<lambda>c n. None,
     new_config = \<lparr>CfgName = ''default'', Dir = [], WalDir = [], ClusterState = ''new'',
       ACUrls = [], LCUrls = [], APUrls = [], LPUrls = [], CfgClientAutoTLS = False,
       CfgClientTLSInfo = \<lparr>CertFile = [], KeyFile = []\<rparr>, CfgPeerAutoTLS = False,
       CfgPeerTLSInfo = \<lparr>CertFile = [], KeyFile = []\<rparr>, AutoCompactionMode = [],
       AutoCompactionRetention = ''0'', Logger = [], LogOutputs = [''default''],
       InitialCluster = []\<rparr>,
     default_host = Inr ''10.0.0.5'', os_stat = \<lambda>f. None, os_mkdir_all = \<lambda>f. None,
     os_write_file = \<lambda>f. None, os_remove = \<lambda>f. None\<rparr>"

text \<open>The world of member \<open>i\<close>: its server gets the handle \<open>i\<close>.\<close>

definition sample_envs :: "nat \<Rightarrow> env" where
  "sample_envs i = sample_env\<lparr>start_etcd := \<lambda>c. Inr (i, c)\<rparr>"

definition sample_world :: "nat \<Rightarrow> lead_world" where
  "sample_world i = \<lparr>get_at = \<lambda>t. if t = 0 then Some ''timeout'' else None,
     poll_at = \<lambda>t. if t < 3 then Some 0 else Some 257,
     status_at = \<lambda>t. Inr \<lparr>MemberId = of_nat (257 + i), RespLeader = 257, DbSize = 4096\<rparr>\<rparr>"

definition sample_config :: config where
  "sample_config = \<lparr>Config_Size = 3, RootDir = ''/tmp/cluster'', RootPort = 2389,
     EmbeddedClient = True, PeerTLSInfo = \<lparr>CertFile = [], KeyFile = []\<rparr>, PeerAutoTLS = False,
     ClientTLSInfo = \<lparr>CertFile = [], KeyFile = []\<rparr>, ClientAutoTLS = False, DialTimeout = 0\<rparr>"

lemma sample_keeps [simp]: "keeps_config sample_env" "keeps_config (sample_envs i)"
  by (simp_all add: keeps_config_def sample_env_def sample_envs_def)

end
