(* ===== verification/ClusterElect.thy ===== *)
theory ClusterElect
  imports ClusterStart
begin

text \<open>
  \<open>Start\<close> in a world that behaves: every server starts, and from some time on every server
  names the same member as the leader. Then \<open>Start\<close> returns the cluster, in every order in
  which the goroutines complete, with that member as its one leader.
\<close>

section \<open>Groups that return\<close>

lemma wait_group_pointwise:
  assumes "distinct order" "set order \<subseteq> {..<length ms}"
    and "\<forall>i\<in>set order. \<exists>m' evs. f i (ms ! i) = Some (m', evs, Returns None)"
  shows "\<exists>evs. wait_group f order ms
     = Some (run_all (\<lambda>i m. the (f i m)) (set order) ms, evs, Returns None)"
  using assms
proof (induction order arbitrary: ms)
  case Nil
  then show ?case by simp
next
  case (Cons i order)
  have i: "i < length ms" "i \<notin> set order" using Cons.prems by auto
  obtain m' evs where f: "f i (ms ! i) = Some (m', evs, Returns None)" using Cons.prems(3) by auto
  have nth: "ms[i := m'] ! j = ms ! j" if "j \<in> set order" for j
    using that i by (metis nth_list_update_neq)
  have "set order \<subseteq> {..<length (ms[i := m'])}" "distinct order" using Cons.prems by auto
  moreover have "\<forall>j\<in>set order. \<exists>m'' evs. f j (ms[i := m'] ! j) = Some (m'', evs, Returns None)"
    using Cons.prems(3) nth by simp
  ultimately obtain evs' where
    "wait_group f order (ms[i := m']) = Some (run_all (\<lambda>i m. the (f i m)) (set order) (ms[i := m']), evs', Returns None)"
    using Cons.IH by blast
  moreover have "run_all (\<lambda>i m. the (f i m)) (set order) (ms[i := m'])
      = run_all (\<lambda>i m. the (f i m)) (insert i (set order)) ms"
    using run_all_insert [OF i, of "\<lambda>i m. the (f i m)"] f by simp
  ultimately show ?case using i f by auto
qed

section \<open>Members that start and agree\<close>

text \<open>Every server starts and becomes ready, and reports the configuration it was given.\<close>

definition starts :: "env \<Rightarrow> member \<Rightarrow> etcd \<Rightarrow> bool" where
  "starts E m s = (\<exists>nc. start_etcd E (cfg m) = Inr (s, nc) \<and> same_place (cfg m) nc
     \<and> started_event E s = ReadyNotify)"

text \<open>Every status answer of member \<open>i\<close>'s world carries its own id, and names \<open>L\<close> whenever it
  names a leader; from some tick on the world is settled on \<open>L\<close>.\<close>

definition agrees :: "lead_world \<Rightarrow> u64 list \<Rightarrow> u64 \<Rightarrow> u64 \<Rightarrow> bool" where
  "agrees w ids self L = ((\<exists>T. settled w ids L T)
     \<and> (\<forall>t resp. status_at w t = Inr resp \<longrightarrow> MemberId resp = self \<and> RespLeader resp \<in> {0, L}))"

lemma Member_Start_starts:
  assumes "starts E m s" "LCUrls (cfg m) \<noteq> []" "LPUrls (cfg m) \<noteq> []"
  shows "\<exists>m' evs. Member_Start E m = (m', evs, Returns None) \<and> srv m' = Some s
     \<and> \<not> is_stopped m' \<and> LCUrls (cfg m') = LCUrls (cfg m)"
  using assms
  by (auto simp: starts_def Member_Start_def Let_def rerr_of_def is_stopped_def same_place_def)

lemma Member_WaitForLeader_agrees:
  assumes "srv m = Some s" "\<not> is_stopped m" "LCUrls (cfg m) \<noteq> []" "agrees w ids self L"
    and "allMemberIDs E clus = Some ids" "embeddedClient clus" "TLS_Empty (ClientTLSInfo (ccfg clus))"
      "\<not> ClientAutoTLS (ccfg clus)"
  shows "\<exists>m' evs. Member_WaitForLeader E w clus m = Some (m', evs, Returns None)
     \<and> IsLeader (status m') = (L = self) \<and> srv m' = srv m"
proof -
  obtain T where T: "settled w ids L T" using assms(4) by (auto simp: agrees_def)
  then have "get_at w (0 + T) = None" by (simp add: settled_def)
  from get_loop_ends [of "get_at w", OF this] obtain t where t: "get_loop (get_at w) 0 = Some t" by blast
  obtain m' out where l: "status_loop w ids m t = Some (m', out)"
    using status_loop_ends [OF T assms(3), of t] by auto
  from status_loop_result [OF l] assms(3) obtain resp u where
    r: "out = Returns None" "status_at w u = Inr resp" "m' = has_leader resp m" "RespLeader resp \<noteq> 0"
    by (auto simp: led_by_def)
  then have "IsLeader (status m') = (L = self)" "srv m' = srv m"
    using assms(4) by (auto simp: agrees_def has_leader_def)
  moreover have "Member_Client E clus False [] m = Returns (Some (v3client_New E s), None, None)"
    using assms by (simp add: Member_Client_def)
  ultimately show ?thesis using assms t l r(1)
    by (simp add: Member_WaitForLeader_def is_stopped_def)
qed

lemma scan_unique:
  assumes "leaders ms = {k}" "\<forall>m\<in>set ms. srv m \<noteq> None"
  shows "scan_leaders E i False ms clus = (clus\<lparr>LeadIdx := i + k\<rparr>, Returns None)"
  using assms
proof (induction ms arbitrary: i k)
  case (Cons m ms)
  show ?case
  proof (cases "IsLeader (status m)")
    case True
    then have k: "k = 0" "leaders ms = {}" using Cons.prems(1) by (auto simp: leaders_Cons)
    have "scan_leaders E j True ms c = (c, Returns None)" for j c
      using k(2) by (induction ms arbitrary: j) (auto simp: leaders_Cons split: if_splits)
    then show ?thesis using True k Cons.prems(2) by auto
  next
    case False
    then have "Suc ` leaders ms = {k}" using Cons.prems(1) by (simp add: leaders_Cons)
    then obtain k' where k': "k = Suc k'" "leaders ms = {k'}"
      by (metis image_is_empty singletonI image_iff inj_image_eq_iff inj_Suc image_insert image_empty)
    then show ?thesis using False Cons.IH [of k' "Suc i"] Cons.prems(2) by simp
  qed
qed (simp add: leaders_def)

section \<open>Start\<close>

lemma run_all_all: "length ms = n \<Longrightarrow> run_all f {..<n} ms = map (\<lambda>i. fst (f i (ms ! i))) [0..<n]"
  by (auto simp: run_all_def)

lemma start_group_starts:
  assumes "distinct order" "set order = {..<length ms}"
    and "\<forall>i < length ms. starts (Es i) (ms ! i) (s i) \<and> LCUrls (cfg (ms ! i)) \<noteq> [] \<and> LPUrls (cfg (ms ! i)) \<noteq> []"
  shows "\<exists>ms' evs. go_group (\<lambda>i. Member_Start (Es i)) order ms = (ms', evs, Returns None)
     \<and> length ms' = length ms
     \<and> (\<forall>i < length ms. srv (ms' ! i) = Some (s i) \<and> \<not> is_stopped (ms' ! i) \<and> LCUrls (cfg (ms' ! i)) \<noteq> [])"
proof -
  let ?f = "\<lambda>i. Member_Start (Es i)"
  have st: "\<exists>m' evs. ?f i (ms ! i) = (m', evs, Returns None) \<and> srv m' = Some (s i)
      \<and> \<not> is_stopped m' \<and> LCUrls (cfg m') = LCUrls (cfg (ms ! i))" if "i < length ms" for i
    using Member_Start_starts assms(3) that by blast
  then have "\<forall>i\<in>set order. \<not> panics_in ?f ms i \<and> snd (snd (?f i (ms ! i))) = Returns None"
    using assms(2) by (fastforce simp: panics_in_def)
  then have "go_group ?f order ms = (run_all ?f (set order) ms, fst (snd (go_group ?f order ms)), Returns None)"
    using go_group_pointwise [of order ms ?f] assms(1,2) by (cases "go_group ?f order ms") auto
  then show ?thesis using st assms(2,3)
    by (intro exI [of _ "run_all ?f (set order) ms"]) (fastforce simp: run_all_nth)
qed

lemma wait_elects:
  assumes order: "distinct order" "set order = {..<n}" and n: "length (Members clus) = n"
    and emb: "embeddedClient clus" "TLS_Empty (ClientTLSInfo (ccfg clus))" "\<not> ClientAutoTLS (ccfg clus)"
    and ms: "\<forall>i<n. srv (Members clus ! i) = Some (s i) \<and> \<not> is_stopped (Members clus ! i)
         \<and> LCUrls (cfg (Members clus ! i)) \<noteq> []"
    and ids: "\<forall>i<n. \<forall>j<n. etcd_id (Es i) (s j) = mid j" "inj_on mid {..<n}"
    and k: "k < n" "\<forall>i<n. agrees (ws i) (map mid [0..<n]) (mid i) (mid k)"
  shows "\<exists>clus' evs. Cluster_WaitForLeader E Es ws order clus = Some (clus', evs, Returns None)
     \<and> leaders (Members clus') = {k} \<and> LeadIdx clus' = k"
proof -
  let ?f = "\<lambda>i. Member_WaitForLeader (Es i) (ws i) clus"
  have srvs: "map (\<lambda>m. map_option (etcd_id (Es i)) (srv m)) (Members clus) = map (\<lambda>j. Some (mid j)) [0..<n]"
    if "i < n" for i using ms ids(1) n that by (auto intro!: nth_equalityI)
  have those_map: "those (map (\<lambda>j. Some (g j)) xs) = Some (map g xs)" for g :: "nat \<Rightarrow> u64" and xs
    by (induction xs) auto
  have all: "allMemberIDs (Es i) clus = Some (map mid [0..<n])" if "i < n" for i
    using srvs [OF that] those_map by (simp add: allMemberIDs_def)
  have w: "\<exists>m' evs. ?f i (Members clus ! i) = Some (m', evs, Returns None)
      \<and> IsLeader (status m') = (mid k = mid i) \<and> srv m' = srv (Members clus ! i)" if "i < n" for i
    by (rule Member_WaitForLeader_agrees [where s = "s i"]) (use ms k(2) all emb that in auto)
  then have "\<forall>i\<in>set order. \<exists>m' evs. ?f i (Members clus ! i) = Some (m', evs, Returns None)"
    using order(2) by blast
  from wait_group_pointwise [where f = ?f and ms = "Members clus", OF order(1) _ this] order(2) n obtain evs where
    g: "wait_group ?f order (Members clus) = Some (run_all (\<lambda>i m. the (?f i m)) {..<n} (Members clus), evs, Returns None)"
    by auto
  define ns where "ns = run_all (\<lambda>i m. the (?f i m)) {..<n} (Members clus)"
  have len: "length ns = n" by (simp add: ns_def n)
  have nth: "IsLeader (status (ns ! i)) = (mid k = mid i) \<and> srv (ns ! i) \<noteq> None" if "i < n" for i
    using w [OF that] ms that n by (auto simp: ns_def run_all_nth)
  have lead: "leaders ns = {k}"
  proof -
    have "i \<in> leaders ns \<longleftrightarrow> i < n \<and> mid k = mid i" for i
      using nth [of i] len unfolding leaders_def by (cases "i < n") simp_all
    moreover have "i < n \<and> mid k = mid i \<longleftrightarrow> i = k" for i
      using k(1) ids(2) by (metis inj_onD lessThan_iff)
    ultimately show ?thesis by blast
  qed
  have srv: "\<forall>m\<in>set ns. srv m \<noteq> None"
    using nth len by (auto simp: in_set_conv_nth)
  have "scan_leaders E 0 False ns (clus\<lparr>Members := ns\<rparr>) = (clus\<lparr>Members := ns, LeadIdx := k\<rparr>, Returns None)"
    using scan_unique [OF lead srv, of E 0 "clus\<lparr>Members := ns\<rparr>"] by simp
  then show ?thesis using g [folded ns_def] lead by (simp add: Cluster_WaitForLeader_def)
qed

lemma addressed_peer: "addressed c bp m \<Longrightarrow> LPUrls (cfg m) \<noteq> []"
  by (auto simp: addressed_def)

lemma Start_elects:
  assumes conf: "Start_configure E c = (evs0, Returns (Inr c0))" "int n = Config_Size c"
    and emb: "EmbeddedClient c" "TLS_Empty (ClientTLSInfo c)" "\<not> ClientAutoTLS c"
    and orders: "distinct order" "set order = {..<n}" "distinct order'" "set order' = {..<n}"
    and st: "\<forall>i<n. starts (Es i) (Members c0 ! i) (s i)"
    and ids: "\<forall>i<n. \<forall>j<n. etcd_id (Es i) (s j) = mid j" "inj_on mid {..<n}"
    and k: "k < n" "\<forall>i<n. agrees (ws i) (map mid [0..<n]) (mid i) (mid k)"
  shows "\<exists>clus evs. Cluster_Start E Es ws order order' c = Some (Some clus, evs, Returns None)
     \<and> leaders (Members clus) = {k} \<and> LeadIdx clus = k"
proof -
  have c0: "cluster_inv c0" "ccfg c0 = c" "embeddedClient c0" "length (Members c0) = n"
    using Start_configure_inv [OF conf(1)] conf(2) emb(1) by (auto simp: cluster_inv_def)
  have "\<forall>i<n. addressed c (basePort c0) (Members c0 ! i)"
    using c0 by (simp add: cluster_inv_def list_all_length)
  then have "\<forall>i<n. LCUrls (cfg (Members c0 ! i)) \<noteq> [] \<and> LPUrls (cfg (Members c0 ! i)) \<noteq> []"
    using addressed_urls addressed_peer by blast
  then obtain ms evs1 where g: "go_group (\<lambda>i. Member_Start (Es i)) order (Members c0) = (ms, evs1, Returns None)"
    "length ms = n" "\<forall>i<n. srv (ms ! i) = Some (s i) \<and> \<not> is_stopped (ms ! i) \<and> LCUrls (cfg (ms ! i)) \<noteq> []"
    using start_group_starts [of order "Members c0" Es s] orders(1,2) st c0(4) by auto
  have "\<exists>clus' evs. Cluster_WaitForLeader E Es ws order' (c0\<lparr>Members := ms\<rparr>) = Some (clus', evs, Returns None)
     \<and> leaders (Members clus') = {k} \<and> LeadIdx clus' = k"
    by (rule wait_elects [where s = s]) (use orders g c0 emb ids k in auto)
  then show ?thesis using conf(1) g(1) by (auto simp: Cluster_Start_def)
qed

section \<open>A sample world\<close>

lemma sample_agrees_any: "257 \<in> set ids \<Longrightarrow> agrees (sample_world i) ids (of_nat (257 + i)) 257"
  unfolding agrees_def settled_def
  by (intro conjI exI [of _ 3]) (auto simp: sample_world_def)

lemma sample_agrees: "agrees (sample_world i) [257, 258, 259] (of_nat (257 + i)) 257"
  by (rule sample_agrees_any) simp

lemma sample_start:
  "\<exists>clus evs. Cluster_Start sample_env sample_envs sample_world [0, 2, 1] [2, 1, 0] sample_config
     = Some (Some clus, evs, Returns None) \<and> leaders (Members clus) = {0} \<and> LeadIdx clus = 0"
proof -
  have "\<exists>evs clus s. Start_configure sample_env sample_config = (evs, Returns (Inr clus))
     \<and> initialCluster clus = Returns s
     \<and> Members clus = map (\<lambda>i. with_initial s (start_member sample_env sample_config i)) [0..<nat (Config_Size sample_config)]"
    by (rule Start_configure_result) (simp_all add: sample_config_def root_dir_def existFileOrDir_def
        sample_env_def TLS_Empty_def)
  then obtain evs c0 where c0: "Start_configure sample_env sample_config = (evs, Returns (Inr c0))" by blast
  have st: "\<forall>i<3. starts (sample_envs i) (Members c0 ! i) i"
    by (simp add: starts_def sample_envs_def sample_env_def)
  show ?thesis
    by (rule Start_elects [OF c0, where n = 3 and s = "\<lambda>i. i" and mid = "\<lambda>i. of_nat (257 + i)"])
      (use st sample_agrees in \<open>auto simp: sample_config_def TLS_Empty_def sample_envs_def sample_env_def inj_on_def
         less_Suc_eq numeral_3_eq_3\<close>)
qed

text \<open>A running three-member cluster, written out.\<close>

definition sample_member :: "nat \<Rightarrow> member" where
  "sample_member i = \<lparr>
     cfg = member_config sample_env sample_config ''/tmp/cluster'' ''localhost'' ''new'' (int i + 1) (2389 + 2 * int i),
     srv = Some i, stoppedStartedAt = 1000,
     status = empty_status\<lparr>Name := ''node'', IsLeader := (i = 0),
       State := (if i = 0 then LeaderMemberStatus else FollowerMemberStatus)\<rparr>\<rparr>"

definition sample_nodes :: cluster where
  "sample_nodes = \<lparr>embeddedClient = True, Started = 1000, csize = 3, LeadIdx = 0,
     Members = [sample_member 0, sample_member 1, sample_member 2],
     clientHostToIndex = [local_host 2389 \<mapsto> 0, local_host 2391 \<mapsto> 1, local_host 2393 \<mapsto> 2],
     clientDialTimeout = defaultDialTimeout, basePort = 2395, rootDir = ''/tmp/cluster'',
     ccfg = sample_config, stopcClosed = False, rootCanceled = False\<rparr>"

lemma sample_member_simps [simp]:
  "srv (sample_member i) = Some i" "is_stopped (sample_member i) = False"
  "IsLeader (status (sample_member i)) = (i = 0)"
  "LCUrls (cfg (sample_member i)) = [client_url sample_config (2389 + 2 * int i)]"
  "APUrls (cfg (sample_member i)) = [peer_url sample_config (2389 + 2 * int i)]"
  "LPUrls (cfg (sample_member i)) = [peer_url sample_config (2389 + 2 * int i)]"
  "member_ok True (sample_member i)"
  by (simp_all add: sample_member_def is_stopped_def member_config_def Let_def member_ok_def empty_status_def)

lemma sample_nodes_simps [simp]:
  "Members sample_nodes = [sample_member 0, sample_member 1, sample_member 2]"
  "csize sample_nodes = 3" "embeddedClient sample_nodes" "ccfg sample_nodes = sample_config"
  "basePort sample_nodes = 2395" "stopcClosed sample_nodes = False"
  by (simp_all add: sample_nodes_def)

lemma sample_member_host [simp]: "client_host (sample_member i) = local_host (2389 + 2 * int i)"
  by (simp add: client_host_def)

lemma sample_addressed: "i < 3 \<Longrightarrow> addressed sample_config 2395 (sample_member i)"
  unfolding addressed_def by (intro exI [of _ "2389 + 2 * int i"] exI [of _ "[]"]) simp

lemma sample_nodes_inv: "cluster_inv sample_nodes"
proof -
  have "clientHostToIndex sample_nodes h = Some i
      \<longleftrightarrow> i < 3 \<and> client_host ([sample_member 0, sample_member 1, sample_member 2] ! i) = h" for h i
  proof (cases "i < 3")
    case True
    then have "i = 0 \<or> i = 1 \<or> i = 2" by auto
    then show ?thesis by (elim disjE) (auto simp: sample_nodes_def local_host_inj)
  next
    case False
    then show ?thesis by (auto simp: sample_nodes_def)
  qed
  then show ?thesis
    by (auto simp: cluster_inv_def sample_addressed local_host_inj numeral_3_eq_3)
qed

lemma sample_no_tls [simp]:
  "TLS_Empty (ClientTLSInfo sample_config)" "\<not> ClientAutoTLS sample_config"
  by (simp_all add: sample_config_def TLS_Empty_def)

end
