(* ===== verification/ClusterTheorems.thy ===== *)
theory ClusterTheorems
  imports ClusterElect
begin

text \<open>
  The properties of the cluster, each with a witness at the sample worlds of
  \<open>ClusterStart\<close> and \<open>ClusterElect\<close> where it has hypotheses.
\<close>

section \<open>Starting\<close>

text \<open>C2 (liveness). If the servers all start, and every server's answers settle on one member as
  the leader, then \<open>Start\<close> returns the cluster without an error, in whatever order the
  goroutines complete and however long the first answers were errors or named no leader; the
  agreed member, and no other, is then marked leader, and \<open>LeadIdx\<close> is its index.\<close>

theorem start_elects_the_agreed_leader:
  assumes "Start_configure E c = (evs0, Returns (Inr c0))" "int n = Config_Size c"
    and "EmbeddedClient c" "TLS_Empty (ClientTLSInfo c)" "\<not> ClientAutoTLS c"
    and "distinct order" "set order = {..<n}" "distinct order'" "set order' = {..<n}"
    and "\<forall>i<n. starts (Es i) (Members c0 ! i) (s i)"
    and "\<forall>i<n. \<forall>j<n. etcd_id (Es i) (s j) = mid j" "inj_on mid {..<n}"
    and "k < n" "\<forall>i<n. agrees (ws i) (map mid [0..<n]) (mid i) (mid k)"
  shows "\<exists>clus evs. Cluster_Start E Es ws order order' c = Some (Some clus, evs, Returns None)
     \<and> leaders (Members clus) = {k} \<and> LeadIdx clus = k"
  using assms by (rule Start_elects)

lemma sample_configured:
  "\<exists>evs clus. Start_configure sample_env sample_config = (evs, Returns (Inr clus))"
  using Start_configure_result [of sample_config sample_env]
  by (auto simp: sample_config_def root_dir_def existFileOrDir_def sample_env_def TLS_Empty_def)

theorem start_elects_the_agreed_leader_witness:
  "\<exists>clus evs. Cluster_Start sample_env sample_envs sample_world [0, 2, 1] [2, 1, 0] sample_config
     = Some (Some clus, evs, Returns None) \<and> leaders (Members clus) = {0} \<and> LeadIdx clus = 0"
proof -
  obtain evs c0 where c0: "Start_configure sample_env sample_config = (evs, Returns (Inr c0))"
    using sample_configured by blast
  have st: "\<forall>i<3. starts (sample_envs i) (Members c0 ! i) i"
    by (simp add: starts_def sample_envs_def sample_env_def)
  show ?thesis
    by (rule start_elects_the_agreed_leader [OF c0, where n = 3 and s = "\<lambda>i. i" and mid = "\<lambda>i. of_nat (257 + i)"])
      (use st sample_agrees in \<open>auto simp: sample_config_def TLS_Empty_def sample_envs_def sample_env_def inj_on_def
         less_Suc_eq numeral_3_eq_3\<close>)
qed

text \<open>C31 (functional). With at most seven members, no conflicting TLS settings and a usable root
  directory, \<open>Start\<close> configures exactly the requested members: member \<open>i\<close> is \<open>node(i+1)\<close>, stopped,
  serves clients on \<open>localhost\<close> port \<open>RootPort + 2i\<close> and peers on the port after it, and every
  member is given the same initial cluster, which lists them all.\<close>

theorem start_configures_members:
  assumes "0 \<le> Config_Size c" "Config_Size c \<le> 7" "snd (root_dir E c) = None"
    and "TLS_Empty (PeerTLSInfo c) \<or> \<not> PeerAutoTLS c" "TLS_Empty (ClientTLSInfo c) \<or> \<not> ClientAutoTLS c"
  shows "\<exists>evs clus. Start_configure E c = (evs, Returns (Inr clus))
     \<and> int (length (Members clus)) = Config_Size c
     \<and> (\<forall>i < length (Members clus).
          let m = Members clus ! i; p = RootPort c + 2 * int i
          in CfgName (cfg m) = ''node'' @ dec_int (int i + 1) \<and> is_stopped m
             \<and> hd (LCUrls (cfg m)) = client_url c p \<and> Endpoint (status m) = url_string (client_url c p)
             \<and> APUrls (cfg m) = [peer_url c p] \<and> initialCluster clus = Returns (InitialCluster (cfg m)))"
proof -
  obtain evs clus s where c: "Start_configure E c = (evs, Returns (Inr clus))"
    "initialCluster clus = Returns s"
    "Members clus = map (\<lambda>i. with_initial s (start_member E c i)) [0..<nat (Config_Size c)]"
    using Start_configure_result [of c E] assms by blast
  then show ?thesis using assms(1)
    by (auto simp: Let_def with_initial_def start_member_def new_member_def with_logger_def
        member_config_def is_stopped_def empty_status_def)
qed

theorem start_configures_members_witness:
  "\<exists>evs clus. Start_configure sample_env sample_config = (evs, Returns (Inr clus))
     \<and> int (length (Members clus)) = 3"
  using start_configures_members [of sample_config sample_env]
  by (auto simp: sample_config_def root_dir_def existFileOrDir_def sample_env_def TLS_Empty_def)

section \<open>The invariant\<close>

text \<open>C1 (invariant). In every state a started cluster reaches by stops, restarts, additions,
  status updates, leader waits and shutdowns, with any outcome and in any order, the size is
  the number of members, every member's status is consistent, and \<open>clientHostToIndex\<close> maps
  exactly the members' client hosts, each to its member.\<close>

theorem running_cluster_invariant:
  assumes "running clus" shows "cluster_inv clus"
  using assms by (rule running_inv)

theorem running_cluster_invariant_witness: "\<exists>clus. running clus \<and> cluster_inv clus"
proof -
  obtain clus evs where "Cluster_Start sample_env sample_envs sample_world [0, 2, 1] [2, 1, 0] sample_config
     = Some (Some clus, evs, Returns None)" using sample_start by blast
  then have "running clus" by (rule running.start) simp
  with running_cluster_invariant [OF this] show ?thesis by blast
qed

text \<open>C3 (roundtrip). In every such state the first client endpoint that \<open>Endpoints\<close> reports for
  member \<open>i\<close>, with or without its scheme, is resolved by \<open>FindIndex\<close> to \<open>i\<close>. These hosts are
  all that it resolves: an endpoint whose host is that of no member's first URL gives \<open>-1\<close>, a
  further endpoint, which \<open>Endpoints\<close> reports when the machine has a default host, is not found
  by its own host.\<close>

theorem endpoints_find_their_member:
  assumes "running clus"
  shows "(\<forall>i < Cluster_Size clus. \<forall>scheme. \<exists>ep eps.
            Cluster_Endpoints clus (int i) scheme = Returns (ep # eps) \<and> FindIndex clus ep = int i)
     \<and> (\<forall>ep. FindIndex clus ep = - 1 \<or> member_at clus (FindIndex clus ep) \<noteq> None)
     \<and> (\<forall>ep i. FindIndex clus ep = int i
          \<longleftrightarrow> (\<exists>m. member_at clus (int i) = Some m \<and> getHost ep = Host (hd (LCUrls (cfg m)))))
     \<and> (\<forall>ep. (\<forall>m \<in> set (Members clus). getHost ep \<noteq> Host (hd (LCUrls (cfg m)))) \<longrightarrow> FindIndex clus ep = - 1)"
proof -
  have inv: "cluster_inv clus" using assms by (rule running_inv)
  have "\<exists>ep eps. Cluster_Endpoints clus (int i) scheme = Returns (ep # eps) \<and> FindIndex clus ep = int i"
    if i: "i < Cluster_Size clus" for i scheme
  proof -
    have len: "i < length (Members clus)" using i by (simp add: Cluster_Size_def)
    have "LCUrls (cfg (Members clus ! i)) \<noteq> []"
      using inv len addressed_urls by (metis cluster_inv_def list_all_length)
    then obtain u us where u: "LCUrls (cfg (Members clus ! i)) = u # us" by (auto simp: neq_Nil_conv)
    show ?thesis using FindIndex_member [OF inv len, of scheme] len u
      by (simp add: Cluster_Endpoints_def with_member_def member_at_def)
  qed
  moreover have "FindIndex clus ep = - 1 \<or> member_at clus (FindIndex clus ep) \<noteq> None" for ep
    using FindIndex_range [OF inv, of ep] by (auto simp: member_at_def)
  moreover have "FindIndex clus ep = int i
      \<longleftrightarrow> (\<exists>m. member_at clus (int i) = Some m \<and> getHost ep = Host (hd (LCUrls (cfg m))))" for ep i
    using FindIndex_iff [OF inv] by (auto simp: member_at_def client_host_def)
  moreover have "FindIndex clus ep = - 1"
    if "\<forall>m \<in> set (Members clus). getHost ep \<noteq> Host (hd (LCUrls (cfg m)))" for ep
    using FindIndex_none [OF inv] that by (simp add: client_host_def)
  ultimately show ?thesis by blast
qed

theorem endpoints_find_their_member_witness:
  "\<exists>clus. running clus \<and> (\<forall>ep. FindIndex clus ep = - 1 \<or> member_at clus (FindIndex clus ep) \<noteq> None)"
proof -
  obtain clus evs where "Cluster_Start sample_env sample_envs sample_world [0, 2, 1] [2, 1, 0] sample_config
     = Some (Some clus, evs, Returns None)" using sample_start by blast
  then have "running clus" by (rule running.start) simp
  with endpoints_find_their_member [OF this] show ?thesis by blast
qed

end
