(* ===== verification/ClusterOpsTheorems.thy ===== *)
theory ClusterOpsTheorems
  imports ClusterElect
begin

text \<open>
  The properties of the operations on a running cluster: stopping and restarting a member,
  refreshing the statuses, waiting for a leader, shutting down, adding and removing a member.
\<close>

section \<open>Stop and Restart\<close>

text \<open>C4 (functional). \<open>Stop(i)\<close> of a running member closes exactly that member's server, marks it
  stopped with no leadership, size or hash, leaves every other member and the quorum as they
  were, and lowers the number of active nodes by one; a second \<open>Stop(i)\<close> does nothing. \<open>Restart(i)\<close>
  then starts one server with that member's configuration, in state \<open>existing\<close>, and the number
  of active nodes is the old one.\<close>

theorem stop_restart_one_member:
  assumes m: "member_at clus i = Some m" "srv m = Some s" "\<not> is_stopped m"
    and up: "start_etcd E (cfg m\<lparr>ClusterState := ClusterStateFlagExisting\<rparr>) = Inr (s', nc)"
  shows "\<exists>clus1 clus2. Cluster_Stop E i clus = (clus1, [CloseEtcd s], Returns ())
     \<and> IsStopped clus1 i = Returns True \<and> Suc (ActiveNodeN clus1) = ActiveNodeN clus
     \<and> (\<forall>j. j \<noteq> i \<longrightarrow> member_at clus1 j = member_at clus j) \<and> Quorum clus1 = Quorum clus
     \<and> Cluster_Stop E i clus1 = (clus1, [], Returns ())
     \<and> Cluster_Restart E i clus1
         = (clus2, [StartEtcd (cfg m\<lparr>ClusterState := ClusterStateFlagExisting\<rparr>)], Returns None)
     \<and> IsStopped clus2 i = Returns False \<and> ActiveNodeN clus2 = ActiveNodeN clus
     \<and> (\<forall>j. j \<noteq> i \<longrightarrow> member_at clus2 j = member_at clus j)"
proof -
  obtain m1 where m1: "Cluster_Stop E i clus = (set_member i m1 clus, [CloseEtcd s], Returns ())"
    "is_stopped m1" "cfg m1 = cfg m" "srv m1 = Some s"
    using Cluster_Stop_running [OF m] m(2) by metis
  let ?c1 = "set_member i m1 clus"
  have at1: "member_at ?c1 i = Some m1" by (simp add: member_at_set_member [OF m(1)])
  have act1: "Suc (ActiveNodeN ?c1) = ActiveNodeN clus"
    using ActiveNodeN_set_member [OF m(1), of m1] m(3) m1(2) by simp
  let ?m2 = "m1\<lparr>srv := Some s', cfg := nc, stoppedStartedAt := clock E 0,
      status := started_status ''restarted'' E (clock E 0) (status m1)\<rparr>"
  have r: "Cluster_Restart E i ?c1
      = (set_member i ?m2 ?c1, [StartEtcd (cfg m\<lparr>ClusterState := ClusterStateFlagExisting\<rparr>)], Returns None)"
    using m1 up at1 by (simp add: Cluster_Restart_def Member_Restart_def is_stopped_def)
  have run2: "\<not> is_stopped ?m2" by (simp add: is_stopped_def)
  have act2: "ActiveNodeN (set_member i ?m2 ?c1) = ActiveNodeN clus"
    using ActiveNodeN_set_member [OF at1, of ?m2] act1 m1(2) run2 by simp
  show ?thesis
    using m1 act1 act2 r run2 Cluster_Stop_stopped [OF at1 m1(4,2)]
    by (intro exI [of _ ?c1] exI [of _ "set_member i ?m2 ?c1"])
      (simp add: IsStopped_def with_member_def member_at_set_member [OF m(1)] member_at_set_member [OF at1])
qed

theorem stop_restart_one_member_witness:
  "\<exists>clus1. Cluster_Stop sample_env 1 sample_nodes = (clus1, [CloseEtcd 1], Returns ())
     \<and> IsStopped clus1 1 = Returns True \<and> Suc (ActiveNodeN clus1) = 3"
  using stop_restart_one_member [of sample_nodes 1 "sample_member 1" 1 sample_env 0]
  by (auto simp: member_at_def sample_env_def ActiveNodeN_def is_stopped_def [symmetric])

section \<open>Status updates\<close>

text \<open>C30 (functional). A status fetch that gets no client returns the error and leaves the member
  as it was. One that gets a client, of either kind, with or without TLS, closes it and does not
  touch the server or the configuration: if the status call, the connection and the hash call
  succeed the member is recorded as a leader exactly when it names itself, with the size and hash it
  reported; if any of these three fails the member is recorded as stopped, whether or not its
  server is still running.\<close>

theorem fetch_status_records_reachability:
  assumes "Member_Client E clus False [] m = Returns (cli, tls, err)"
  shows "(\<forall>e. err = Some e \<longrightarrow> FetchMemberStatus E clus m = (m, [], Returns (Some e)))
    \<and> (\<forall>c u us. err = None \<and> cli = Some c \<and> LCUrls (cfg m) = u # us \<longrightarrow>
        (\<exists>m' r. FetchMemberStatus E clus m = (m', [CloseClient c], Returns r) \<and> srv m' = srv m \<and> cfg m' = cfg m
          \<and> (r = None \<longleftrightarrow> (\<exists>resp h. rpc_status E c (url_string u) = Inr resp
                \<and> grpc_dial E (Host u) tls = None \<and> rpc_hash E (Host u) = Inr h
                \<and> IsLeader (status m') = (MemberId resp = RespLeader resp)
                \<and> DBSize (status m') = word_of_int (DbSize resp) \<and> Hash (status m') = h))
          \<and> (r = None \<longrightarrow> \<not> is_stopped m')
          \<and> (r \<noteq> None \<longrightarrow> is_stopped m' \<and> \<not> IsLeader (status m') \<and> DBSize (status m') = 0 \<and> Hash (status m') = 0)))"
  using assms
  by (auto simp: FetchMemberStatus_def fetched_status_def empty_status_def
      unreachable_status_def is_stopped_def split: sum.splits option.splits)

theorem fetch_status_records_reachability_witness:
  "\<exists>m'. FetchMemberStatus sample_env sample_nodes (sample_member 0) = (m', [CloseClient 0], Returns None)
     \<and> srv m' = Some 0 \<and> \<not> is_stopped m'"
proof -
  have cli: "Member_Client sample_env sample_nodes False [] (sample_member 0) = Returns (Some 0, None, None)"
    by (simp add: Member_Client_def) (simp add: sample_env_def)
  obtain m' r where m': "FetchMemberStatus sample_env sample_nodes (sample_member 0) = (m', [CloseClient 0], Returns r)"
    "srv m' = Some 0" "r = None \<longrightarrow> \<not> is_stopped m'"
    using conjunct2 [OF fetch_status_records_reachability [OF cli]] by fastforce
  have "snd (snd (FetchMemberStatus sample_env sample_nodes (sample_member 0))) = Returns None"
    using cli by (simp add: FetchMemberStatus_def) (simp add: sample_env_def)
  with m' show ?thesis by auto
qed

section \<open>Waiting for a leader\<close>

text \<open>C27 (liveness). \<open>WaitForLeader\<close> of a running member returns if the answers of the world settle on
  a leader among the members, whatever came before; and whenever it returns without an error
  the member's status is the one some status call answered: that call named a non-zero leader
  among the members, and the member is marked leader exactly when it named itself.\<close>

theorem member_wait_returns_with_a_leader:
  assumes "\<not> is_stopped m" "allMemberIDs E clus = Some ids" "LCUrls (cfg m) \<noteq> []"
    and "Member_Client E clus False [] m = Returns (Some cli, tls, None)"
    and "settled w ids L T"
  shows "\<exists>m'. Member_WaitForLeader E w clus m = Some (m', [CloseClient cli], Returns None)
     \<and> (\<exists>t resp. status_at w t = Inr resp \<and> RespLeader resp \<noteq> 0 \<and> RespLeader resp \<in> set ids
          \<and> IsLeader (status m') = (RespLeader resp = MemberId resp)
          \<and> ID (status m') = hex (unat (MemberId resp)) \<and> \<not> is_stopped m')"
proof -
  have "get_at w (0 + T) = None" using assms(5) by (simp add: settled_def)
  from get_loop_ends [of "get_at w", OF this] obtain t where t: "get_loop (get_at w) 0 = Some t" by blast
  obtain m' out where l: "status_loop w ids m t = Some (m', out)"
    using status_loop_ends [OF assms(5,3), of t] by auto
  have r: "out = Returns None" "led_by w ids m m'" using status_loop_result [OF l] assms(3) by auto
  then obtain u resp where u: "status_at w u = Inr resp" "m' = has_leader resp m"
    "RespLeader resp \<noteq> 0" "RespLeader resp \<in> set ids" by (auto simp: led_by_def)
  have "\<not> is_stopped m'" by (simp add: u(2) has_leader_def is_stopped_def)
  then show ?thesis using assms t l r(1) u
    by (auto simp: Member_WaitForLeader_def is_stopped_def has_leader_def intro!: exI [of _ u] exI [of _ resp])
qed

theorem member_wait_returns_with_a_leader_witness:
  "\<exists>m'. Member_WaitForLeader sample_env (sample_world 0) sample_nodes (sample_member 0)
      = Some (m', [CloseClient 0], Returns None)"
proof -
  have w: "settled (sample_world 0) [257, 258, 259] 257 3"
    by (auto simp: settled_def sample_world_def)
  have "allMemberIDs sample_env sample_nodes = Some [257, 258, 259]"
    by (simp add: allMemberIDs_def sample_env_def)
  moreover have "Member_Client sample_env sample_nodes False [] (sample_member 0) = Returns (Some 0, None, None)"
    by (simp add: Member_Client_def) (simp add: sample_env_def)
  ultimately show ?thesis
    using member_wait_returns_with_a_leader [of "sample_member 0" sample_env sample_nodes, OF _ _ _ _ w] by auto
qed

text \<open>C29 (termination). If no linearizable read ever succeeds (as when the root context is cancelled)
  \<open>WaitForLeader\<close> of a running member never returns: the loop has no other way out.\<close>

theorem member_wait_never_returns:
  assumes "\<not> is_stopped m" "allMemberIDs E clus = Some ids"
    and "Member_Client E clus False [] m = Returns (Some cli, tls, None)"
    and "\<forall>t. get_at w t \<noteq> None"
  shows "Member_WaitForLeader E w clus m = None"
proof -
  have "get_loop (get_at w) 0 = None"
    using get_loop_result [of "get_at w" 0] assms(4) by (cases "get_loop (get_at w) 0") auto
  then show ?thesis using assms by (simp add: Member_WaitForLeader_def is_stopped_def)
qed

theorem member_wait_never_returns_witness:
  "Member_WaitForLeader sample_env (sample_world 0\<lparr>get_at := \<lambda>t. Some ''context canceled''\<rparr>)
      sample_nodes (sample_member 0) = None"
proof -
  have "allMemberIDs sample_env sample_nodes = Some [257, 258, 259]"
    by (simp add: allMemberIDs_def sample_env_def)
  moreover have "Member_Client sample_env sample_nodes False [] (sample_member 0) = Returns (Some 0, None, None)"
    by (simp add: Member_Client_def) (simp add: sample_env_def)
  ultimately show ?thesis
    by (intro member_wait_never_returns [where m = "sample_member 0"]) auto
qed

text \<open>C28 (safety). When \<open>WaitForLeader\<close> of the cluster returns without an error, at most one member
  is marked leader, and if one is, \<open>LeadIdx\<close> is its index.\<close>

theorem at_most_one_leader:
  assumes "Cluster_WaitForLeader E Es ws order clus = Some (clus', evs, Returns None)"
  shows "leaders (Members clus') = {} \<or> leaders (Members clus') = {LeadIdx clus'}"
proof -
  obtain ms evs' where g: "wait_group (\<lambda>i. Member_WaitForLeader (Es i) (ws i) clus) order (Members clus)
      = Some (ms, evs', Returns None)"
    and s: "scan_leaders E 0 False ms (clus\<lparr>Members := ms\<rparr>) = (clus', Returns None)"
    using assms by (auto simp: Cluster_WaitForLeader_def split: option.splits outcome.splits prod.splits)
  from scan_leaders_result [OF s] show ?thesis by auto
qed

theorem at_most_one_leader_witness:
  "\<exists>clus' evs. Cluster_WaitForLeader sample_env sample_envs sample_world [1] sample_nodes
     = Some (clus', evs, Returns None) \<and> (leaders (Members clus') = {} \<or> leaders (Members clus') = {LeadIdx clus'})"
proof -
  have "agrees (sample_world 1) [257, 258, 259] 258 257" using sample_agrees [of 1] by simp
  moreover have "allMemberIDs (sample_envs 1) sample_nodes = Some [257, 258, 259]"
    by (simp add: allMemberIDs_def sample_env_def sample_envs_def)
  ultimately have "\<exists>m' evs. Member_WaitForLeader (sample_envs 1) (sample_world 1) sample_nodes (sample_member 1)
      = Some (m', evs, Returns None) \<and> IsLeader (status m') = ((257::u64) = 258) \<and> srv m' = srv (sample_member 1)"
    by (intro Member_WaitForLeader_agrees [where s = 1]) auto
  then obtain m' evs where "Member_WaitForLeader (sample_envs 1) (sample_world 1) sample_nodes (sample_member 1)
      = Some (m', evs, Returns None)" "\<not> IsLeader (status m')" "srv m' = Some 1" by auto
  then have "\<exists>clus'. Cluster_WaitForLeader sample_env sample_envs sample_world [1] sample_nodes
     = Some (clus', evs, Returns None)" by (simp add: Cluster_WaitForLeader_def)
  with at_most_one_leader show ?thesis by blast
qed

end
