(* ===== verification/ClusterMembership.thy ===== *)
theory ClusterMembership
  imports ClusterElect
begin

text \<open>
  Changes of the member list: \<open>Add\<close>, \<open>Remove\<close>, \<open>Shutdown\<close>. \<open>Remove\<close> finishes on the wrong
  member: after the list is rebuilt its index names the next one.
\<close>

section \<open>Shutdown\<close>

lemma Stop_group_running:
  "srv m = Some s \<Longrightarrow> \<exists>m'. Stop_group Es i m = (m', if is_stopped m then [] else [CloseEtcd s], Returns None)
     \<and> is_stopped m'"
  by (auto simp: Stop_group_def Member_Stop_def is_stopped_def)

definition close_events :: "member list \<Rightarrow> nat list \<Rightarrow> event list" where
  "close_events ms order = concat (map (\<lambda>i. case srv (ms ! i) of None \<Rightarrow> []
     | Some s \<Rightarrow> if is_stopped (ms ! i) then [] else [CloseEtcd s]) order)"

text \<open>C24 (functional). \<open>Shutdown\<close> of a cluster whose members all have a server closes the server of
  every running member exactly once, in the order in which the goroutines complete, then
  deletes the root directory; afterwards no member is active, the stop notification goes off, and a second \<open>Shutdown\<close> panics on
  the closed channel before it stops anything.\<close>

theorem shutdown_stops_every_member:
  assumes "\<not> stopcClosed clus" "distinct order" "set order = {..<length (Members clus)}"
    and "\<forall>m\<in>set (Members clus). srv m \<noteq> None"
  shows "\<exists>clus'. Cluster_Shutdown Es order clus
       = (clus', close_events (Members clus) order @ [RemoveAll (rootDir clus)], Returns ())
     \<and> ActiveNodeN clus' = 0 \<and> rootCanceled clus' \<and> Cluster_StopNotify clus'
     \<and> Cluster_Shutdown Es order clus' = (clus', [], Panics closed_panic)"
proof -
  let ?ms = "Members clus" and ?f = "Stop_group Es"
  have st: "\<exists>m'. ?f i (?ms ! i) = (m', fst (snd (?f i (?ms ! i))), Returns None) \<and> is_stopped m'
      \<and> fst (snd (?f i (?ms ! i))) = (case srv (?ms ! i) of None \<Rightarrow> []
          | Some s \<Rightarrow> if is_stopped (?ms ! i) then [] else [CloseEtcd s])" if "i < length ?ms" for i
  proof -
    have "srv (?ms ! i) \<noteq> None" using assms(4) that by simp
    then obtain s where s: "srv (?ms ! i) = Some s" by blast
    from Stop_group_running [OF s, of Es i] s show ?thesis by auto
  qed
  have "\<forall>i\<in>set order. \<not> panics_in ?f ?ms i \<and> snd (snd (?f i (?ms ! i))) = Returns None"
    using st assms(3) unfolding panics_in_def by (metis lessThan_iff outcome.distinct(1) snd_conv)
  moreover have "concat (map (\<lambda>i. fst (snd (?f i (?ms ! i)))) order) = close_events ?ms order"
    unfolding close_events_def
    by (rule arg_cong [where f = concat], rule map_cong [OF refl]) (use st assms(3) in blast)
  ultimately have g: "go_group ?f order ?ms = (run_all ?f (set order) ?ms, close_events ?ms order, Returns None)"
    using go_group_pointwise [of order ?ms ?f] assms(2,3)
    by (cases "go_group ?f order ?ms") auto
  have "is_stopped m" if "m \<in> set (run_all ?f (set order) ?ms)" for m
  proof -
    from that obtain i where i: "i < length ?ms" "m = run_all ?f (set order) ?ms ! i"
      by (auto simp: in_set_conv_nth)
    then have "m = fst (?f i (?ms ! i))" using assms(3) by (simp add: run_all_nth)
    then show ?thesis using st [OF i(1)] by auto
  qed
  then have none: "filter (\<lambda>m. \<not> is_stopped m) (run_all ?f (set order) ?ms) = []"
    by (simp add: filter_empty_conv)
  show ?thesis using assms(1) g none
    by (simp add: Cluster_Shutdown_def Let_def ActiveNodeN_eq Cluster_StopNotify_def)
qed

theorem shutdown_stops_every_member_witness:
  "\<exists>clus'. Cluster_Shutdown sample_envs [2, 0, 1] sample_nodes
     = (clus', [CloseEtcd 2, CloseEtcd 0, CloseEtcd 1, RemoveAll ''/tmp/cluster''], Returns ())"
proof -
  have "rootDir sample_nodes = ''/tmp/cluster''" by (simp add: sample_nodes_def)
  moreover have "close_events (Members sample_nodes) [2, 0, 1] = [CloseEtcd 2, CloseEtcd 0, CloseEtcd 1]"
    by (simp add: close_events_def)
  moreover have "set [2, 0, 1] = {..<length (Members sample_nodes)}" by auto
  ultimately show ?thesis
    using shutdown_stops_every_member [of sample_nodes "[2, 0, 1]" sample_envs] by force
qed

section \<open>Remove\<close>

text \<open>What \<open>Remove(i)\<close> has done once the etcd cluster has let the member go.\<close>

lemma Cluster_Remove_reaches:
  assumes inv: "cluster_inv clus" and i: "i < length (Members clus)"
    and srv: "srv (Members clus ! i) = Some s"
    and cli: "Member_Client E clus False [] (Members clus ! (Suc i mod length (Members clus)))
                = Returns (Some cl, tls, None)"
    and rpc: "rpc_member_remove E cl (etcd_id E s) = None"
  shows "Cluster_Remove E (int i) clus
     = (case Remove_member E (int i) clus of (clus', evs, r) \<Rightarrow> (clus', MemberRemove (etcd_id E s) # evs, r))"
proof -
  have n: "csize clus = int (length (Members clus))" using inv by (simp add: cluster_inv_def)
  have mod: "(int i + 1) mod csize clus = int (Suc i mod length (Members clus))"
    by (simp add: n zmod_int add.commute)
  have "Suc i mod length (Members clus) < length (Members clus)"
    using i by (intro mod_less_divisor) (cases "Members clus", auto)
  then have "member_at clus ((int i + 1) mod csize clus)
      = Some (Members clus ! (Suc i mod length (Members clus)))"
    unfolding mod by (simp add: member_at_def)
  then show ?thesis using i n srv cli rpc
    by (auto simp: Cluster_Remove_def member_at_def)
qed

text \<open>C22 (error). \<open>Remove(i)\<close> of a member that is not the last, once etcd has removed it, acts on the
  next member: it closes the server of member \<open>i+1\<close> when that one is running, marks it stopped
  and deletes its data directories, while the removed member's server is never closed. The removed
  member's address stays in \<open>clientHostToIndex\<close> and now names the next member.\<close>

theorem remove_acts_on_the_next_member:
  assumes inv: "cluster_inv clus" and i: "Suc i < length (Members clus)"
    and srv: "srv (Members clus ! i) = Some s" "srv (Members clus ! Suc i) = Some s'"
    and run: "\<not> is_stopped (Members clus ! Suc i)"
    and cli: "Member_Client E clus False [] (Members clus ! (Suc i mod length (Members clus)))
                = Returns (Some cl, tls, None)"
    and rpc: "rpc_member_remove E cl (etcd_id E s) = None"
  shows "\<exists>clus'. Cluster_Remove E (int i) clus
       = (clus', [MemberRemove (etcd_id E s), CloseEtcd s', RemoveAll (Dir (cfg (Members clus ! Suc i))),
                  RemoveAll (WalDir (cfg (Members clus ! Suc i)))], Returns None)
     \<and> Cluster_Size clus' = Cluster_Size clus - 1
     \<and> IsStopped clus' (int i) = Returns True \<and> cfg (Members clus' ! i) = cfg (Members clus ! Suc i)
     \<and> clientHostToIndex clus' (client_host (Members clus ! i)) = Some i"
proof -
  let ?n = "length (Members clus)" and ?ms = "remove_nth i (Members clus)"
  let ?m = "Members clus ! Suc i"
  have i': "i < ?n" "i < ?n - 1" using i by simp_all
  obtain hm where hm: "reindex 0 ?ms (clientHostToIndex clus) = (hm, Returns ())"
    "hm (client_host (Members clus ! i)) = Some i"
    using Remove_reindex [OF inv i'(1)] by blast
  have nth: "?ms ! i = ?m" "length ?ms = ?n - 1"
    using i' by (simp_all add: remove_nth_nth remove_nth_length)
  let ?m' = "?m\<lparr>stoppedStartedAt := clock E 0, status := stopped_status E (clock E 0) (status ?m)\<rparr>"
  have stop: "Member_Stop E ?m = (?m', [CloseEtcd s'], Returns ())"
    using srv(2) run by (simp add: Member_Stop_def is_stopped_def)
  let ?c = "clus\<lparr>csize := csize clus - 1, Members := ?ms[i := ?m'], clientHostToIndex := hm\<rparr>"
  have "Remove_member E (int i) clus = (?c, [CloseEtcd s', RemoveAll (Dir (cfg ?m)), RemoveAll (WalDir (cfg ?m))],
      Returns None)"
    using hm(1) nth i' stop by (simp add: Remove_member_def member_at_def set_member_def)
  then show ?thesis
    using Cluster_Remove_reaches [OF inv i'(1) srv(1) cli rpc] hm(2) nth i'
    by (simp add: Cluster_Size_def IsStopped_def with_member_def member_at_def is_stopped_def)
qed

theorem remove_acts_on_the_next_member_witness:
  "\<exists>clus'. Cluster_Remove sample_env 0 sample_nodes
     = (clus', [MemberRemove 257, CloseEtcd 1, RemoveAll (Dir (cfg (sample_member 1))),
                RemoveAll (WalDir (cfg (sample_member 1)))], Returns None)"
proof -
  have "Member_Client sample_env sample_nodes False [] (sample_member 1) = Returns (Some 1, None, None)"
    by (simp add: Member_Client_def) (simp add: sample_env_def)
  moreover have "etcd_id sample_env 0 = 257" "rpc_member_remove sample_env 1 257 = None"
    by (simp_all add: sample_env_def)
  ultimately show ?thesis
    using remove_acts_on_the_next_member [OF sample_nodes_inv, of 0 0 1 sample_env 1 None] by auto
qed

text \<open>\<open>Remove\<close> of the last member panics with an index out of range after etcd has
  removed it and the list has shrunk: its server is not closed and its directories stay.\<close>

theorem remove_of_the_last_member_panics:
  assumes inv: "cluster_inv clus" and i: "Suc i = length (Members clus)"
    and srv: "srv (Members clus ! i) = Some s"
    and cli: "Member_Client E clus False [] (Members clus ! 0) = Returns (Some cl, tls, None)"
    and rpc: "rpc_member_remove E cl (etcd_id E s) = None"
  shows "\<exists>clus'. Cluster_Remove E (int i) clus = (clus', [MemberRemove (etcd_id E s)], Panics index_panic)
     \<and> Cluster_Size clus' = i \<and> csize clus' = int i"
proof -
  let ?ms = "remove_nth i (Members clus)"
  have i': "i < length (Members clus)" using i by simp
  obtain hm where hm: "reindex 0 ?ms (clientHostToIndex clus) = (hm, Returns ())"
    using Remove_reindex [OF inv i'] by blast
  have len: "length ?ms = i" using remove_nth_length [OF i'] i by simp
  have "Remove_member E (int i) clus
      = (clus\<lparr>csize := csize clus - 1, Members := ?ms, clientHostToIndex := hm\<rparr>, [], Panics index_panic)"
    using hm len by (simp add: Remove_member_def member_at_def)
  moreover have "csize clus = int (Suc i)" using inv i by (simp add: cluster_inv_def)
  ultimately show ?thesis
    using Cluster_Remove_reaches [OF inv i' srv, of E cl tls] cli rpc i len by (simp add: Cluster_Size_def)
qed

theorem remove_of_the_last_member_panics_witness:
  "\<exists>clus'. Cluster_Remove sample_env 2 sample_nodes = (clus', [MemberRemove 259], Panics index_panic)"
proof -
  have "Member_Client sample_env sample_nodes False [] (sample_member 0) = Returns (Some 0, None, None)"
    by (simp add: Member_Client_def) (simp add: sample_env_def)
  moreover have "etcd_id sample_env 2 = 259" "rpc_member_remove sample_env 0 259 = None"
    by (simp_all add: sample_env_def)
  ultimately show ?thesis
    using remove_of_the_last_member_panics [OF sample_nodes_inv, of 2 2 sample_env 0 None] by auto
qed

section \<open>Add\<close>

lemma inv_initial: "cluster_inv clus \<Longrightarrow> \<exists>s. initialCluster clus = Returns s"
proof -
  assume "cluster_inv clus"
  then have "\<forall>m\<in>set (Members clus). initial_entry m \<noteq> None"
    by (auto simp: cluster_inv_def list_all_iff addressed_def initial_entry_def)
  then obtain ys where "those (map initial_entry (Members clus)) = Some ys"
    using those_Some [of "map initial_entry (Members clus)"] by auto
  then show ?thesis by (simp add: initialCluster_def)
qed

lemma Add_member_set_initial:
  assumes "cluster_inv clus"
  shows "\<exists>clus2 s. set_initial (nat (csize (fst (Add_member E clus)))) 0 (fst (Add_member E clus)) = (clus2, Returns ())
     \<and> clus2 = (fst (Add_member E clus))\<lparr>Members := map (with_initial s) (Members (fst (Add_member E clus)))\<rparr>"
proof -
  let ?c = "fst (Add_member E clus)"
  have inv: "cluster_inv ?c" using assms by (rule Add_member_inv)
  then have n: "nat (csize ?c) = length (Members ?c)" by (simp add: cluster_inv_def)
  obtain s where s: "initialCluster ?c = Returns s" using inv_initial [OF inv] by blast
  from set_initial_result [OF s, of 0 "nat (csize ?c)"] n obtain ms where
    ms: "set_initial (nat (csize ?c)) 0 ?c = (?c\<lparr>Members := ms\<rparr>, Returns ())"
      "length ms = length (Members ?c)" "\<forall>j<length ms. ms ! j = with_initial s (Members ?c ! j)" by auto
  then have "ms = map (with_initial s) (Members ?c)" by (intro nth_equalityI) auto
  with ms(1) show ?thesis by blast
qed

lemma with_initial_simps [simp]:
  "srv (with_initial s m) = srv m" "status (with_initial s m) = status m"
  "LCUrls (cfg (with_initial s m)) = LCUrls (cfg m)" "APUrls (cfg (with_initial s m)) = APUrls (cfg m)"
  "LPUrls (cfg (with_initial s m)) = LPUrls (cfg m)" "is_stopped (with_initial s m) = is_stopped m"
  by (simp_all add: with_initial_def is_stopped_def)

text \<open>The cluster after \<open>Add\<close> has put its new member in the list, and the client it uses.\<close>

lemma Add_configured:
  assumes inv: "cluster_inv clus" and ne: "Members clus \<noteq> []"
    and emb: "embeddedClient clus" "TLS_Empty (ClientTLSInfo (ccfg clus))" "\<not> ClientAutoTLS (ccfg clus)"
    and s0: "srv (hd (Members clus)) = Some s0"
  shows "\<exists>clus1 clus2 m evs. set_initial (nat (csize clus1)) 0 clus1 = (clus2, Returns ())
     \<and> Add_member E clus = (clus1, evs)
     \<and> length (Members clus2) = Suc (length (Members clus))
     \<and> member_at clus2 (int (length (Members clus))) = Some m \<and> srv m = None \<and> is_stopped m
     \<and> hd (LCUrls (cfg m)) = client_url (ccfg clus) (basePort clus) \<and> LCUrls (cfg m) \<noteq> [] \<and> LPUrls (cfg m) \<noteq> []
     \<and> APUrls (cfg m) = [peer_url (ccfg clus) (basePort clus)]
     \<and> (\<exists>m0. member_at clus2 0 = Some m0
          \<and> Member_Client E clus2 False [] m0 = Returns (Some (v3client_New E s0), None, None))
     \<and> ActiveNodeN clus2 = ActiveNodeN clus
     \<and> clientHostToIndex clus2 (local_host (basePort clus)) = Some (length (Members clus))"
proof -
  let ?c = "fst (Add_member E clus)"
  obtain clus2 s where c2: "set_initial (nat (csize ?c)) 0 ?c = (clus2, Returns ())"
    "clus2 = ?c\<lparr>Members := map (with_initial s) (Members ?c)\<rparr>"
    using Add_member_set_initial [OF inv] by blast
  obtain m1 ms where m1: "Members clus = m1 # ms" using ne by (auto simp: neq_Nil_conv)
  let ?ec = "member_config E (ccfg clus) (rootDir clus) (dhost_of E) ClusterStateFlagExisting
                 (csize clus + 1) (basePort clus)"
  let ?m = "new_member ?ec (client_url (ccfg clus) (basePort clus))"
  have Mc: "Members ?c = Members clus @ [?m]" "embeddedClient ?c = embeddedClient clus" "ccfg ?c = ccfg clus"
    "clientHostToIndex ?c (local_host (basePort clus)) = Some (length (Members clus))"
    by (simp_all add: Add_member_def Let_def)
  have m: "srv ?m = None" "is_stopped ?m" "hd (LCUrls (cfg ?m)) = client_url (ccfg clus) (basePort clus)"
    "LCUrls (cfg ?m) \<noteq> []" "LPUrls (cfg ?m) \<noteq> []" "APUrls (cfg ?m) = [peer_url (ccfg clus) (basePort clus)]"
    by (simp_all add: new_member_def member_config_def Let_def is_stopped_def empty_status_def)
  have act: "ActiveNodeN clus2 = ActiveNodeN clus"
    using m(2) by (simp add: ActiveNodeN_eq c2(2) Mc filter_map o_def)
  have at: "member_at clus2 (int (length (Members clus))) = Some (with_initial s ?m)"
    by (simp add: c2(2) Mc member_at_def nth_append)
  have at0: "member_at clus2 0 = Some (with_initial s m1)"
    by (simp add: c2(2) Mc m1 member_at_def)
  have cli: "Member_Client E clus2 False [] (with_initial s m1) = Returns (Some (v3client_New E s0), None, None)"
    using emb s0 m1 by (simp add: Member_Client_def c2(2) Mc)
  have "Add_member E clus = (?c, snd (Add_member E clus))" by simp
  with c2(1) m at at0 cli act Mc(1,4) c2(2) show ?thesis
    by (intro exI [of _ ?c] exI [of _ clus2] exI [of _ "with_initial s ?m"] exI [of _ "snd (Add_member E clus)"]) auto
qed

text \<open>C25 (functional). \<open>Add\<close> to an embedded cluster, when etcd accepts the member and its server
  starts, returns no error: there is one more member and one more active node, the
  invariant holds, and the new member is found at the address \<open>localhost\<close> and the old base
  port.\<close>

theorem add_adds_a_running_member:
  assumes inv: "cluster_inv clus" and ne: "Members clus \<noteq> []"
    and emb: "embeddedClient clus" "TLS_Empty (ClientTLSInfo (ccfg clus))" "\<not> ClientAutoTLS (ccfg clus)"
    and s0: "srv (hd (Members clus)) = Some s0"
    and rpc: "\<forall>us. rpc_member_add E (v3client_New E s0) us = None"
    and up: "\<forall>m. \<exists>s. starts E m s" and keep: "keeps_config E"
  shows "\<exists>clus' evs. Cluster_Add E clus = (clus', evs, Returns None) \<and> cluster_inv clus'
     \<and> Cluster_Size clus' = Suc (Cluster_Size clus) \<and> ActiveNodeN clus' = Suc (ActiveNodeN clus)
     \<and> FindIndex clus' (local_host (basePort clus)) = int (Cluster_Size clus)"
proof -
  let ?idx = "int (length (Members clus))"
  from Add_configured [OF inv ne emb s0, of E] obtain clus1 clus2 m evs m0 where
    c: "set_initial (nat (csize clus1)) 0 clus1 = (clus2, Returns ())"
      "Add_member E clus = (clus1, evs)" "length (Members clus2) = Suc (length (Members clus))"
    and m: "member_at clus2 ?idx = Some m" "is_stopped m" "LCUrls (cfg m) \<noteq> []" "LPUrls (cfg m) \<noteq> []"
      "APUrls (cfg m) = [peer_url (ccfg clus) (basePort clus)]"
    and m0: "member_at clus2 0 = Some m0"
      "Member_Client E clus2 False [] m0 = Returns (Some (v3client_New E s0), None, None)"
    and act: "ActiveNodeN clus2 = ActiveNodeN clus"
    and host: "clientHostToIndex clus2 (local_host (basePort clus)) = Some (length (Members clus))"
    by blast
  obtain s where "starts E m s" using up by blast
  from Member_Start_starts [OF this m(3,4)] obtain m' evs' where
    st: "Member_Start E m = (m', evs', Returns None)" "\<not> is_stopped m'" by blast
  let ?u = "url_string (peer_url (ccfg clus) (basePort clus))"
  have add: "Cluster_Add E clus = (set_member ?idx m' clus2, evs @ [MemberAdd [?u]] @ evs', Returns None)"
    using c m m0 rpc st by (simp add: Cluster_Add_def split: prod.splits)
  have "Suc (ActiveNodeN clus) = ActiveNodeN (set_member ?idx m' clus2)"
    using ActiveNodeN_set_member [OF m(1), of m'] m(2) st(2) act by simp
  moreover have "FindIndex (set_member ?idx m' clus2) (local_host (basePort clus)) = ?idx"
    using host getHost_plain [OF plain_localhost] by (simp add: FindIndex_def set_member_def)
  ultimately show ?thesis
    using add c(3) Cluster_Add_inv [OF inv keep] by (auto simp: Cluster_Size_def set_member_def)
qed

lemma sample_starts: "\<exists>s. starts sample_env m s"
  by (simp add: starts_def sample_env_def)

theorem add_adds_a_running_member_witness:
  "\<exists>clus' evs. Cluster_Add sample_env sample_nodes = (clus', evs, Returns None)
     \<and> Cluster_Size clus' = 4 \<and> FindIndex clus' (local_host 2395) = 3"
proof -
  have "\<forall>us. rpc_member_add sample_env (v3client_New sample_env 0) us = None" by (simp add: sample_env_def)
  then show ?thesis
    using add_adds_a_running_member [OF sample_nodes_inv, of 0 sample_env] sample_starts
    by (auto simp: Cluster_Size_def)
qed

text \<open>C26 (error). When etcd refuses the new member, \<open>Add\<close> returns the error but keeps the member: the
  size has grown, so that the quorum may have too, while no node was added to the active ones. The
  member has no server: stopping it, or waiting for a leader in any running member, panics on
  the nil pointer.\<close>

theorem failed_add_keeps_a_dead_member:
  assumes inv: "cluster_inv clus" and ne: "Members clus \<noteq> []"
    and emb: "embeddedClient clus" "TLS_Empty (ClientTLSInfo (ccfg clus))" "\<not> ClientAutoTLS (ccfg clus)"
    and s0: "srv (hd (Members clus)) = Some s0"
    and rpc: "\<forall>us. rpc_member_add E (v3client_New E s0) us = Some e"
  shows "\<exists>clus' evs. Cluster_Add E clus = (clus', evs, Returns (Some e))
     \<and> Cluster_Size clus' = Suc (Cluster_Size clus) \<and> ActiveNodeN clus' = ActiveNodeN clus
     \<and> Cluster_Stop E' (int (Cluster_Size clus)) clus' = (clus', [], Panics nil_panic)
     \<and> (is_stopped m \<or> Member_WaitForLeader E' w clus' m = Some (m, [], Panics nil_panic))"
proof -
  let ?idx = "int (length (Members clus))"
  from Add_configured [OF inv ne emb s0, of E] obtain clus1 clus2 m1 evs m0 where
    c: "set_initial (nat (csize clus1)) 0 clus1 = (clus2, Returns ())"
      "Add_member E clus = (clus1, evs)" "length (Members clus2) = Suc (length (Members clus))"
    and m1: "member_at clus2 ?idx = Some m1" "srv m1 = None"
      "APUrls (cfg m1) = [peer_url (ccfg clus) (basePort clus)]"
    and m0: "member_at clus2 0 = Some m0"
      "Member_Client E clus2 False [] m0 = Returns (Some (v3client_New E s0), None, None)"
    and act: "ActiveNodeN clus2 = ActiveNodeN clus"
    by blast
  let ?u = "url_string (peer_url (ccfg clus) (basePort clus))"
  have add: "Cluster_Add E clus = (clus2, evs @ [MemberAdd [?u]], Returns (Some e))"
    using c m1 m0 rpc by (simp add: Cluster_Add_def split: prod.splits)
  have "m1 \<in> set (Members clus2)" using member_atD [OF m1(1)] by auto
  then have "None \<in> set (map (\<lambda>m. map_option (etcd_id E') (srv m)) (Members clus2))"
    using m1(2) by (metis (mono_tags, lifting) image_eqI list.set_map option.simps(8))
  moreover have "None \<in> set xs \<Longrightarrow> those xs = None" for xs :: "u64 option list"
    by (induction xs) (auto split: option.splits)
  ultimately have ids: "allMemberIDs E' clus2 = None" by (simp add: allMemberIDs_def)
  have "Cluster_Stop E' ?idx clus2 = (clus2, [], Panics nil_panic)"
    using m1 set_member_self [OF m1(1)] by (simp add: Cluster_Stop_def Member_Stop_def)
  then show ?thesis using add act c(3) ids
    by (auto simp: Cluster_Size_def Member_WaitForLeader_def is_stopped_def)
qed

theorem failed_add_keeps_a_dead_member_witness:
  "\<exists>clus' evs. Cluster_Add (sample_env\<lparr>rpc_member_add := \<lambda>c us. Some ''unhealthy cluster''\<rparr>) sample_nodes
     = (clus', evs, Returns (Some ''unhealthy cluster'')) \<and> Cluster_Size clus' = 4 \<and> ActiveNodeN clus' = 3"
proof -
  have "ActiveNodeN sample_nodes = 3" by (simp add: ActiveNodeN_eq)
  then show ?thesis
    using failed_add_keeps_a_dead_member [OF sample_nodes_inv, of 0
        "sample_env\<lparr>rpc_member_add := \<lambda>c us. Some ''unhealthy cluster''\<rparr>" "''unhealthy cluster''" sample_env
        "sample_member 0" "sample_world 0"]
    by (auto simp: Cluster_Size_def numeral_eq_Suc)
qed

end
