(* ===== verification/MemberLife.thy ===== *)
theory MemberLife
  imports ClusterElect
begin

text \<open>
  One member and its server while its methods overlap. \<open>Stop\<close> and \<open>Restart\<close> exclude each other
  (\<open>opLock\<close>), and so do the rounds that call \<open>FetchMemberStatus\<close> (\<open>mmu\<close>), but the two kinds
  overlap: \<open>statusLock\<close> is only held around the single accesses to the status. So each method is
  cut where it takes that lock.
\<close>

section \<open>The methods in steps\<close>

text \<open>\<open>FetchMemberStatus\<close> asks the server first and writes the status at the end: not at all, that
  the member is unreachable, or the new status.\<close>

datatype fetch_write = Keep | Unreachable string time go_error | Healthy MemberStatus

definition fetch_poll ::
  "env \<Rightarrow> cluster \<Rightarrow> member \<Rightarrow> fetch_write \<times> event list \<times> go_error option outcome" where
  "fetch_poll E clus m =
     (case Member_Client E clus False [] m of
        Panics p \<Rightarrow> (Keep, [], Panics p)
      | Returns (cli, tlsCfg, Some e) \<Rightarrow> (Keep, [], Returns (Some e))
      | Returns (None, tlsCfg, None) \<Rightarrow> (Keep, [], Panics nil_panic)
      | Returns (Some cli, tlsCfg, None) \<Rightarrow>
          (case LCUrls (cfg m) of
             [] \<Rightarrow> (Keep, [CloseClient cli], Panics index_panic)
           | u # us \<Rightarrow>
               (case rpc_status E cli (url_string u) of
                  Inl e \<Rightarrow> (Unreachable '' is not reachable'' (clock E 0) e, [CloseClient cli], Returns (Some e))
                | Inr resp \<Rightarrow>
                    (case grpc_dial E (Host u) tlsCfg of
                       Some e \<Rightarrow> (Unreachable '' is not reachable'' (clock E 1) e, [CloseClient cli], Returns (Some e))
                     | None \<Rightarrow>
                         (case rpc_hash E (Host u) of
                            Inl e \<Rightarrow> (Unreachable '' was not reachable while getting hash'' (clock E 2) e,
                                      [CloseClient cli], Returns (Some e))
                          | Inr h \<Rightarrow> (Healthy ((fetched_status E m u resp)\<lparr>Hash := h\<rparr>),
                                      [CloseClient cli], Returns None))))))"

definition fetch_commit :: "env \<Rightarrow> fetch_write \<Rightarrow> member \<Rightarrow> member" where
  "fetch_commit E wr m =
     (case wr of Keep \<Rightarrow> m
      | Unreachable how t e \<Rightarrow> m\<lparr>status := unreachable_status how E t e (status m)\<rparr>
      | Healthy st \<Rightarrow> m\<lparr>status := st\<rparr>)"

text \<open>\<open>Stop\<close> of a running member: the status, then the server.\<close>

definition stop_mark :: "env \<Rightarrow> member \<Rightarrow> member" where
  "stop_mark E m = m\<lparr>stoppedStartedAt := clock E 0, status := stopped_status E (clock E 0) (status m)\<rparr>"

text \<open>\<open>Restart\<close> of a stopped one: the configuration, the server, then the status.\<close>

definition restart_config :: "member \<Rightarrow> member" where
  "restart_config m = m\<lparr>cfg := (cfg m)\<lparr>ClusterState := ClusterStateFlagExisting\<rparr>\<rparr>"

definition restart_server :: "etcd \<Rightarrow> embed_config \<Rightarrow> member \<Rightarrow> member" where
  "restart_server s nc m = m\<lparr>srv := Some s, cfg := nc\<rparr>"

definition restart_mark :: "env \<Rightarrow> member \<Rightarrow> member" where
  "restart_mark E m = m\<lparr>stoppedStartedAt := clock E 0,
     status := started_status ''restarted'' E (clock E 0) (status m)\<rparr>"

lemma FetchMemberStatus_steps:
  "FetchMemberStatus E clus m = (case fetch_poll E clus m of (wr, evs, r) \<Rightarrow> (fetch_commit E wr m, evs, r))"
  by (simp add: FetchMemberStatus_def fetch_poll_def fetch_commit_def
      split: outcome.split option.split list.split sum.split)

lemma Member_Stop_steps:
  "srv m = Some s \<Longrightarrow> Member_Stop E m
     = (if is_stopped m then (m, [], Returns ()) else (stop_mark E m, [CloseEtcd s], Returns ()))"
  by (simp add: Member_Stop_def stop_mark_def is_stopped_def)

lemma Member_Restart_steps:
  "srv m = Some s \<Longrightarrow> Member_Restart E m
     = (if \<not> is_stopped m then (m, [], Returns None)
        else case start_etcd (E :: env) (cfg (restart_config m)) of
               Inl e \<Rightarrow> (restart_config m, [StartEtcd (cfg (restart_config m))], Returns (Some e))
             | Inr (h, nc) \<Rightarrow> (restart_mark E (restart_server h nc (restart_config m)),
                 [StartEtcd (cfg (restart_config m))], Returns None))"
  by (simp add: Member_Restart_def restart_config_def restart_server_def restart_mark_def is_stopped_def
      Let_def split: sum.split)

section \<open>The member and its server\<close>

datatype node_op = Quiet | Stopping | Closing | Restarting | Starting

record node =
  mem :: member
  up :: bool
  polled :: "fetch_write option"
  op :: node_op

text \<open>\<open>ov\<close>: whether a status round and a \<open>Stop\<close> or \<open>Restart\<close> may overlap. \<open>W\<close>: which
  worlds a round may meet while the server is open and while it is closed. \<open>Stop\<close> and \<open>Restart\<close>
  read the status first and release the lock before they go on.\<close>

inductive life_step :: "bool \<Rightarrow> (bool \<Rightarrow> env \<Rightarrow> bool) \<Rightarrow> cluster \<Rightarrow> node \<Rightarrow> node \<Rightarrow> bool" for ov W clus where
  poll: "polled s = None \<Longrightarrow> ov \<or> op s = Quiet \<Longrightarrow> W (up s) E \<Longrightarrow> fetch_poll E clus (mem s) = (wr, evs, r)
     \<Longrightarrow> life_step ov W clus s (s\<lparr>polled := Some wr\<rparr>)"
| commit: "polled s = Some wr \<Longrightarrow> life_step ov W clus s (s\<lparr>mem := fetch_commit E wr (mem s), polled := None\<rparr>)"
| stop_checks: "op s = Quiet \<Longrightarrow> ov \<or> polled s = None \<Longrightarrow> srv (mem s) \<noteq> None \<Longrightarrow> \<not> is_stopped (mem s)
     \<Longrightarrow> life_step ov W clus s (s\<lparr>op := Stopping\<rparr>)"
| mark: "op s = Stopping \<Longrightarrow> life_step ov W clus s (s\<lparr>mem := stop_mark E (mem s), op := Closing\<rparr>)"
| close: "op s = Closing \<Longrightarrow> life_step ov W clus s (s\<lparr>up := False, op := Quiet\<rparr>)"
| restart_checks: "op s = Quiet \<Longrightarrow> ov \<or> polled s = None \<Longrightarrow> srv (mem s) \<noteq> None \<Longrightarrow> is_stopped (mem s)
     \<Longrightarrow> life_step ov W clus s (s\<lparr>op := Restarting\<rparr>)"
| start: "op s = Restarting \<Longrightarrow> start_etcd (E :: env) (cfg (restart_config (mem s))) = Inr (h, nc)
     \<Longrightarrow> life_step ov W clus s (s\<lparr>mem := restart_server h nc (restart_config (mem s)), up := True, op := Starting\<rparr>)"
| refused: "op s = Restarting \<Longrightarrow> start_etcd (E :: env) (cfg (restart_config (mem s))) = Inl e
     \<Longrightarrow> life_step ov W clus s (s\<lparr>mem := restart_config (mem s), op := Quiet\<rparr>)"
| started: "op s = Starting \<Longrightarrow> life_step ov W clus s (s\<lparr>mem := restart_mark E (mem s), op := Quiet\<rparr>)"

lemma is_stopped_steps [simp]:
  "is_stopped (stop_mark E m)" "\<not> is_stopped (restart_mark E m)"
  "is_stopped (restart_config m) = is_stopped m" "is_stopped (restart_server h nc m) = is_stopped m"
  by (simp_all add: is_stopped_def stop_mark_def stopped_status_def restart_mark_def started_status_def
      restart_config_def restart_server_def FollowerMemberStatus_def StoppedMemberStatus_def)

lemma status_states:
  "FollowerMemberStatus \<noteq> StoppedMemberStatus" "LeaderMemberStatus \<noteq> StoppedMemberStatus"
  by (simp_all add: FollowerMemberStatus_def LeaderMemberStatus_def StoppedMemberStatus_def)

section \<open>Without overlap\<close>

text \<open>What etcd does: a closed server answers no status call. An open one answers every call,
  unless it may be \<open>slow\<close>.\<close>

definition server_answers :: "bool \<Rightarrow> bool \<Rightarrow> env \<Rightarrow> bool" where
  "server_answers slow u E =
     (if u then slow \<or> (\<forall>cli ep h tls. (\<exists>resp. rpc_status E cli ep = Inr resp)
                        \<and> grpc_dial E h tls = None \<and> (\<exists>n. rpc_hash E h = Inr n))
      else \<forall>cli ep. \<exists>e. rpc_status E cli ep = Inl e)"



lemma healthy_poll:
  "fetch_poll E clus m = (Healthy st, evs, r)
     \<Longrightarrow> State st \<noteq> StoppedMemberStatus \<and> (\<exists>cli ep resp. rpc_status E cli ep = Inr resp)"
  by (auto simp: fetch_poll_def fetched_status_def status_states
      split: outcome.splits option.splits list.splits sum.splits prod.splits if_splits)


lemma healthy_commit [simp]: "is_stopped (fetch_commit E (Healthy st) m) \<longleftrightarrow> State st = StoppedMemberStatus"
  by (simp add: fetch_commit_def is_stopped_def)

lemma unreachable_commit [simp]: "is_stopped (fetch_commit E (Unreachable how t e) m)"
  by (simp add: fetch_commit_def is_stopped_def unreachable_status_def)





section \<open>The methods are runs\<close>

lemma node_done:
  "op s = Quiet \<Longrightarrow> s\<lparr>mem := m, up := u, op := Quiet\<rparr> = s\<lparr>mem := m, up := u\<rparr>"
  "op s = Quiet \<Longrightarrow> s\<lparr>mem := m, op := Quiet\<rparr> = s\<lparr>mem := m\<rparr>"
  "polled s = None \<Longrightarrow> s\<lparr>mem := m, polled := None\<rparr> = s\<lparr>mem := m\<rparr>"
  by (cases s, simp)+

lemma life_steps2:
  "R a b \<Longrightarrow> R b c \<Longrightarrow> R\<^sup>*\<^sup>* a c" for R :: "node \<Rightarrow> node \<Rightarrow> bool"
  by (blast intro: converse_rtranclp_into_rtranclp)

lemma fetch_run:
  assumes "op s = Quiet" "polled s = None" "W (up s) E"
  shows "(life_step ov W clus)\<^sup>*\<^sup>* s (s\<lparr>mem := fst (FetchMemberStatus E clus (mem s))\<rparr>)"
proof -
  obtain wr evs r where f: "fetch_poll E clus (mem s) = (wr, evs, r)" by (metis prod_cases3)
  let ?p = "s\<lparr>polled := Some wr\<rparr>"
  have "life_step ov W clus s ?p" using life_step.poll [where W = W and E = E and s = s and ov = ov, OF assms(2) _ _ f] assms by simp
  moreover have "life_step ov W clus ?p (?p\<lparr>mem := fetch_commit E wr (mem ?p), polled := None\<rparr>)"
    by (rule life_step.commit) simp
  ultimately have "(life_step ov W clus)\<^sup>*\<^sup>* s (?p\<lparr>mem := fetch_commit E wr (mem ?p), polled := None\<rparr>)"
    by (rule life_steps2)
  then show ?thesis using assms(2) f by (simp add: FetchMemberStatus_steps node_done)
qed

text \<open>A \<open>Stop\<close> or \<open>Restart\<close> runs whether or not a round is under way, where they may overlap.\<close>

lemma stop_run:
  assumes "op s = Quiet" "ov \<or> polled s = None" "srv (mem s) \<noteq> None"
  shows "(life_step ov W clus)\<^sup>*\<^sup>* s
     (s\<lparr>mem := fst (Member_Stop E (mem s)), up := up s \<and> is_stopped (mem s)\<rparr>)"
proof (cases "is_stopped (mem s)")
  case False
  let ?z = "s\<lparr>op := Stopping\<rparr>"
  let ?a = "?z\<lparr>mem := stop_mark E (mem ?z), op := Closing\<rparr>"
  have z: "life_step ov W clus s ?z" using assms False by (intro life_step.stop_checks) simp_all
  have "life_step ov W clus ?z ?a" by (rule life_step.mark) simp
  moreover have "life_step ov W clus ?a (?a\<lparr>up := False, op := Quiet\<rparr>)" by (rule life_step.close) simp
  ultimately have "(life_step ov W clus)\<^sup>*\<^sup>* ?z (?a\<lparr>up := False, op := Quiet\<rparr>)" by (rule life_steps2)
  with z have "(life_step ov W clus)\<^sup>*\<^sup>* s (?a\<lparr>up := False, op := Quiet\<rparr>)"
    by (rule converse_rtranclp_into_rtranclp)
  then show ?thesis using assms False by (auto simp: Member_Stop_steps node_done)
qed (use assms in \<open>auto simp: Member_Stop_steps\<close>)

lemma restart_run:
  assumes "op s = Quiet" "ov \<or> polled s = None" "srv (mem s) \<noteq> None"
  shows "(life_step ov W clus)\<^sup>*\<^sup>* s (s\<lparr>mem := fst (Member_Restart E (mem s)),
     up := up s \<or> is_stopped (mem s) \<and> \<not> is_stopped (fst (Member_Restart E (mem s)))\<rparr>)"
proof (cases "is_stopped (mem s)")
  case True
  let ?z = "s\<lparr>op := Restarting\<rparr>"
  have z: "life_step ov W clus s ?z" using assms True by (intro life_step.restart_checks) simp_all
  show ?thesis
  proof (cases "start_etcd E (cfg (restart_config (mem s)))")
    case (Inl e)
    have "life_step ov W clus ?z (?z\<lparr>mem := restart_config (mem ?z), op := Quiet\<rparr>)"
      by (rule life_step.refused) (use Inl in simp_all)
    with z have "(life_step ov W clus)\<^sup>*\<^sup>* s (?z\<lparr>mem := restart_config (mem ?z), op := Quiet\<rparr>)"
      by (rule life_steps2)
    then show ?thesis using assms True Inl by (auto simp: Member_Restart_steps node_done)
  next
    case (Inr p)
    obtain h nc where p: "p = (h, nc)" by (cases p)
    let ?a = "?z\<lparr>mem := restart_server h nc (restart_config (mem ?z)), up := True, op := Starting\<rparr>"
    have "life_step ov W clus ?z ?a" by (rule life_step.start) (use Inr p in simp_all)
    moreover have "life_step ov W clus ?a (?a\<lparr>mem := restart_mark E (mem ?a), op := Quiet\<rparr>)"
      by (rule life_step.started) simp
    ultimately have "(life_step ov W clus)\<^sup>*\<^sup>* ?z (?a\<lparr>mem := restart_mark E (mem ?a), op := Quiet\<rparr>)"
      by (rule life_steps2)
    with z have "(life_step ov W clus)\<^sup>*\<^sup>* s (?a\<lparr>mem := restart_mark E (mem ?a), op := Quiet\<rparr>)"
      by (rule converse_rtranclp_into_rtranclp)
    moreover have "?a\<lparr>mem := restart_mark E (mem ?a), op := Quiet\<rparr>
        = s\<lparr>mem := fst (Member_Restart E (mem s)), up := True\<rparr>"
      using assms True Inr p by (cases s) (auto simp: Member_Restart_steps)
    moreover have "\<not> is_stopped (fst (Member_Restart E (mem s)))"
      using assms True Inr p by (auto simp: Member_Restart_steps)
    ultimately show ?thesis using True by simp
  qed
qed (use assms in \<open>auto simp: Member_Restart_steps\<close>)

section \<open>Properties\<close>

text \<open>C20 (equivalence). The steps are the methods: what \<open>FetchMemberStatus\<close>, \<open>Stop\<close> and \<open>Restart\<close>
  do to a member in one piece is what the steps of one run of the method, with nothing in between,
  do to it, and the server has been closed or started with it; whatever worlds \<open>W\<close> a round may
  meet, as long as it may meet the one at hand.\<close>

theorem member_methods_are_runs:
  assumes "op s = Quiet" "polled s = None" "srv (mem s) \<noteq> None" "W (up s) E"
  shows "(life_step False W clus)\<^sup>*\<^sup>* s (s\<lparr>mem := fst (FetchMemberStatus E clus (mem s))\<rparr>)
    \<and> (life_step False W clus)\<^sup>*\<^sup>* s
        (s\<lparr>mem := fst (Member_Stop E (mem s)), up := up s \<and> is_stopped (mem s)\<rparr>)
    \<and> (life_step False W clus)\<^sup>*\<^sup>* s (s\<lparr>mem := fst (Member_Restart E (mem s)),
        up := up s \<or> is_stopped (mem s) \<and> \<not> is_stopped (fst (Member_Restart E (mem s)))\<rparr>)"
  using fetch_run [of s W E, OF assms(1,2,4)] stop_run [of s False W clus E] restart_run [of s False W clus E] assms by blast

definition sample_node :: node where
  "sample_node = \<lparr>mem = sample_member 1, up = True, polled = None, op = Quiet\<rparr>"

definition sample_status :: MemberStatus where
  "sample_status = (fetched_status sample_env (sample_member 1) (client_url sample_config 2391)
     \<lparr>MemberId = 258, RespLeader = 257, DbSize = 4096\<rparr>)\<lparr>Hash := 7\<rparr>"

lemma sample_poll: "fetch_poll sample_env sample_nodes (sample_member 1) = (Healthy sample_status, [CloseClient 1], Returns None)"
  by (simp add: fetch_poll_def Member_Client_def sample_config_def sample_status_def sample_env_def TLS_Empty_def)

lemma sample_node_simps [simp]:
  "mem sample_node = sample_member 1" "up sample_node" "polled sample_node = None" "op sample_node = Quiet"
  by (simp_all add: sample_node_def)

lemma sample_answers: "server_answers False True sample_env"
  by (simp add: server_answers_def sample_env_def)

lemma member_methods_are_runs_witness:
  "(life_step False (server_answers False) sample_nodes)\<^sup>*\<^sup>* sample_node
     (sample_node\<lparr>mem := stop_mark sample_env (sample_member 1), up := False\<rparr>)"
  using member_methods_are_runs [of sample_node "server_answers False" sample_env sample_nodes]
  by (simp add: sample_answers Member_Stop_steps)



text \<open>C21 (safety). When a \<open>Stop\<close> falls into a status round, the round overwrites what it recorded:
  a round that has found a running member healthy writes that after the server is closed. The
  member then counts as running, and \<open>Restart\<close> leaves the closed server as it is and reports no
  error, until a later round finds out.\<close>

theorem fetch_undoes_stop:
  assumes "op s = Quiet" "polled s = None" "srv (mem s) \<noteq> None" "up s" "\<not> is_stopped (mem s)"
    and w: "W True E" and f: "fetch_poll E clus (mem s) = (Healthy st, evs, r)"
  shows "\<exists>s'. (life_step True W clus)\<^sup>*\<^sup>* s s' \<and> op s' = Quiet \<and> polled s' = None
    \<and> \<not> up s' \<and> \<not> is_stopped (mem s') \<and> (\<forall>E. Member_Restart E (mem s') = (mem s', [], Returns None))"
proof -
  let ?a = "s\<lparr>polled := Some (Healthy st)\<rparr>"
  let ?c = "?a\<lparr>mem := fst (Member_Stop E (mem ?a)), up := False\<rparr>"
  let ?d = "?c\<lparr>mem := fetch_commit E (Healthy st) (mem ?c), polled := None\<rparr>"
  have a: "life_step True W clus s ?a"
    using life_step.poll [where W = W and E = E and s = s and ov = True, OF assms(2) _ _ f] w assms(4) by simp
  have stop: "(life_step True W clus)\<^sup>*\<^sup>* ?a ?c"
    using stop_run [of ?a True W clus E] assms(1,3,5) by simp
  have d: "life_step True W clus ?c ?d" by (rule life_step.commit) simp
  have "(life_step True W clus)\<^sup>*\<^sup>* s ?d"
    by (rule converse_rtranclp_into_rtranclp [of "life_step True W clus", OF a
          rtranclp.rtrancl_into_rtrancl [of "life_step True W clus", OF stop d]])
  moreover have "\<not> is_stopped (mem ?d)" using healthy_poll [OF f] by simp
  moreover have "srv (mem ?d) = srv (mem s)"
    using assms(3,5) by (auto simp: fetch_commit_def stop_mark_def Member_Stop_steps)
  ultimately show ?thesis using assms(1,3) by (intro exI [of _ ?d]) (auto simp: Member_Restart_steps)
qed

lemma fetch_undoes_stop_witness:
  "\<exists>s'. (life_step True (server_answers False) sample_nodes)\<^sup>*\<^sup>* sample_node s' \<and> op s' = Quiet \<and> polled s' = None
    \<and> \<not> up s' \<and> \<not> is_stopped (mem s') \<and> (\<forall>E. Member_Restart E (mem s') = (mem s', [], Returns None))"
  by (rule fetch_undoes_stop [where E = sample_env]) (simp_all add: sample_poll [simplified] sample_answers)

text \<open>The other way round, a round that has found a stopped member unreachable, and a
  \<open>Restart\<close> that falls into it: the round writes "Stopped" over the member's new status. \<open>Stop\<close> then
  leaves the running server open, and \<open>Restart\<close> starts another one beside it.\<close>

theorem fetch_undoes_restart:
  assumes "op s = Quiet" "polled s = None" "srv (mem s) \<noteq> None" "\<not> up s" "is_stopped (mem s)"
    and w: "W False E" and f: "fetch_poll E clus (mem s) = (Unreachable how t e, evs, r)"
    and start: "start_etcd (E' :: env) (cfg (restart_config (mem s))) = Inr (h, nc)"
  shows "\<exists>s'. (life_step True W clus)\<^sup>*\<^sup>* s s' \<and> op s' = Quiet \<and> polled s' = None
    \<and> up s' \<and> is_stopped (mem s') \<and> srv (mem s') = Some h
    \<and> (\<forall>E. Member_Stop E (mem s') = (mem s', [], Returns ()))
    \<and> (\<forall>E. \<exists>c. fst (snd (Member_Restart E (mem s'))) = [StartEtcd c])"
proof -
  let ?a = "s\<lparr>polled := Some (Unreachable how t e)\<rparr>"
  let ?c = "?a\<lparr>mem := fst (Member_Restart E' (mem ?a)), up := True\<rparr>"
  let ?d = "?c\<lparr>mem := fetch_commit E (Unreachable how t e) (mem ?c), polled := None\<rparr>"
  have m: "fst (Member_Restart E' (mem ?a)) = restart_mark E' (restart_server h nc (restart_config (mem s)))"
    using assms(3,5) start by (auto simp: Member_Restart_steps)
  have a: "life_step True W clus s ?a"
    using life_step.poll [where W = W and E = E and s = s and ov = True, OF assms(2) _ _ f] w assms(4) by simp
  have restart: "(life_step True W clus)\<^sup>*\<^sup>* ?a ?c"
    using restart_run [of ?a True W clus E'] assms(1,3,5) by (simp add: m [simplified])
  have d: "life_step True W clus ?c ?d" by (rule life_step.commit) simp
  have "(life_step True W clus)\<^sup>*\<^sup>* s ?d"
    by (rule converse_rtranclp_into_rtranclp [of "life_step True W clus", OF a
          rtranclp.rtrancl_into_rtrancl [of "life_step True W clus", OF restart d]])
  moreover have "srv (mem ?d) = Some h"
    using m by (simp add: fetch_commit_def restart_mark_def restart_server_def)
  ultimately show ?thesis using assms(1)
    by (intro exI [of _ ?d]) (auto simp: Member_Stop_steps Member_Restart_steps split: sum.split)
qed

text \<open>Member 1 of the sample cluster while its server does not answer.\<close>

definition unreachable_env :: env where
  "unreachable_env = sample_env\<lparr>rpc_status := \<lambda>c ep. Inl ''timeout''\<rparr>"

lemma fetch_undoes_restart_witness:
  "\<exists>s'. (life_step True (server_answers False) sample_nodes)\<^sup>*\<^sup>* (sample_node\<lparr>mem := stop_mark sample_env (sample_member 1), up := False\<rparr>) s'
    \<and> op s' = Quiet \<and> polled s' = None \<and> up s' \<and> is_stopped (mem s') \<and> srv (mem s') = Some 0
    \<and> (\<forall>E. Member_Stop E (mem s') = (mem s', [], Returns ()))
    \<and> (\<forall>E. \<exists>c. fst (snd (Member_Restart E (mem s'))) = [StartEtcd c])"
proof (rule fetch_undoes_restart [where E = unreachable_env and E' = sample_env])
  show "fetch_poll unreachable_env sample_nodes
      (mem (sample_node\<lparr>mem := stop_mark sample_env (sample_member 1), up := False\<rparr>))
      = (Unreachable '' is not reachable'' 1000 ''timeout'', [CloseClient 1], Returns (Some ''timeout''))"
    by (simp add: fetch_poll_def Member_Client_def stop_mark_def unreachable_env_def sample_config_def
        sample_env_def TLS_Empty_def)
  show "server_answers False False unreachable_env" by (simp add: server_answers_def unreachable_env_def)
qed (simp_all, simp_all add: sample_env_def, simp_all add: stop_mark_def)

end
