(* ===== verification/UpdateRace.thy ===== *)
theory UpdateRace
  imports MemberLife
begin

text \<open>
  The goroutines of one \<open>UpdateMemberStatus\<close>, interleaved. Each works on the shared cluster: it
  reads \<open>clus.Members[i]\<close> and what else of the cluster its calls need, and later writes the
  status. Every interleaving ends as the goroutines run one after the other do.
\<close>

section \<open>The goroutines\<close>

datatype fetch_at = Waiting | Fetched fetch_write | Done

record round =
  round_of :: cluster
  fetch_of :: "nat \<Rightarrow> fetch_at"

text \<open>A panic, that of an index out of range included, is recovered, and nothing is written.\<close>

definition fetch_ask :: "env \<Rightarrow> nat \<Rightarrow> cluster \<Rightarrow> fetch_write" where
  "fetch_ask E i clus =
     (case member_at clus (int i) of None \<Rightarrow> Keep | Some m \<Rightarrow> fst (fetch_poll E clus m))"

definition fetch_tell :: "env \<Rightarrow> nat \<Rightarrow> fetch_write \<Rightarrow> cluster \<Rightarrow> cluster" where
  "fetch_tell E i wr clus =
     (case member_at clus (int i) of None \<Rightarrow> clus | Some m \<Rightarrow> set_member (int i) (fetch_commit E wr m) clus)"

definition fetch_goes :: "nat \<Rightarrow> fetch_at \<Rightarrow> round \<Rightarrow> round" where
  "fetch_goes i a s = s\<lparr>fetch_of := (fetch_of s)(i := a)\<rparr>"

inductive update_step :: "(nat \<Rightarrow> env) \<Rightarrow> nat \<Rightarrow> round \<Rightarrow> round \<Rightarrow> bool" for Es n where
  ask: "i < n \<Longrightarrow> fetch_of s i = Waiting
     \<Longrightarrow> update_step Es n s (fetch_goes i (Fetched (fetch_ask (Es i) i (round_of s))) s)"
| tell: "i < n \<Longrightarrow> fetch_of s i = Fetched wr
     \<Longrightarrow> update_step Es n s (fetch_goes i Done (s\<lparr>round_of := fetch_tell (Es i) i wr (round_of s)\<rparr>))"

definition update_starts :: "cluster \<Rightarrow> round" where
  "update_starts clus = \<lparr>round_of = clus, fetch_of = (\<lambda>i. Waiting)\<rparr>"

text \<open>\<open>wg.Wait\<close> returns.\<close>

definition all_done :: "nat \<Rightarrow> round \<Rightarrow> bool" where
  "all_done n s = list_all (\<lambda>i. fetch_of s i = Done) [0..<n]"

lemma fetch_goes_simps [simp]:
  "round_of (fetch_goes i a s) = round_of s" "fetch_of (fetch_goes i a s) = (fetch_of s)(i := a)"
  by (simp_all add: fetch_goes_def)

section \<open>A fetch reads no other member\<close>

lemma Member_Client_frame: "Member_Client E (clus\<lparr>Members := ms\<rparr>) b eps m = Member_Client E clus b eps m"
  by (cases "LCUrls (cfg m)"; cases "srv m") (simp_all add: Member_Client_def Let_def)

lemma fetch_poll_frame: "fetch_poll E (clus\<lparr>Members := ms\<rparr>) m = fetch_poll E clus m"
  by (simp add: fetch_poll_def Member_Client_frame)

text \<open>Where each goroutine is and what its member has become.\<close>

definition fetch_ok :: "(nat \<Rightarrow> env) \<Rightarrow> cluster \<Rightarrow> nat \<Rightarrow> fetch_at \<Rightarrow> member \<Rightarrow> bool" where
  "fetch_ok Es clus i a m =
     (let m0 = Members clus ! i in case a of
        Waiting \<Rightarrow> m = m0
      | Fetched wr \<Rightarrow> m = m0 \<and> wr = fst (fetch_poll (Es i) clus m0)
      | Done \<Rightarrow> m = fst (FetchMemberStatus (Es i) clus m0))"

definition round_inv :: "(nat \<Rightarrow> env) \<Rightarrow> nat \<Rightarrow> cluster \<Rightarrow> round \<Rightarrow> bool" where
  "round_inv Es n clus s = (\<exists>ms. round_of s = clus\<lparr>Members := ms\<rparr> \<and> length ms = length (Members clus)
     \<and> (\<forall>i < length ms. fetch_ok Es clus i (fetch_of s i) (ms ! i))
     \<and> (\<forall>i. n \<le> i \<longrightarrow> fetch_of s i = Waiting))"

lemma commit_is_fetch:
  "fetch_commit E (fst (fetch_poll E clus m)) m = fst (FetchMemberStatus E clus m)"
  by (simp add: FetchMemberStatus_steps split: prod.split)

lemma update_step_inv:
  assumes "update_step Es n s s'" "round_inv Es n clus s" "n \<le> length (Members clus)"
  shows "round_inv Es n clus s'"
proof -
  obtain ms where ms: "round_of s = clus\<lparr>Members := ms\<rparr>" "length ms = length (Members clus)"
    and ok: "\<forall>i < length ms. fetch_ok Es clus i (fetch_of s i) (ms ! i)"
    and rest: "\<forall>i. n \<le> i \<longrightarrow> fetch_of s i = Waiting"
    using assms(2) by (auto simp: round_inv_def)
  from assms(1) show ?thesis
  proof cases
    case (ask i)
    have i: "i < length ms" using ask(2) ms(2) assms(3) by simp
    have at: "member_at (round_of s) (int i) = Some (ms ! i)" using i ms(1) by (simp add: member_at_def)
    have "ms ! i = Members clus ! i" using ok i ask(3) by (auto simp: fetch_ok_def Let_def)
    then have "fetch_ask (Es i) i (round_of s) = fst (fetch_poll (Es i) clus (Members clus ! i))"
      by (simp add: fetch_ask_def at) (simp add: ms(1) fetch_poll_frame)
    then show ?thesis using ask ms ok rest \<open>ms ! i = _\<close>
      unfolding round_inv_def by (intro exI [of _ ms]) (auto simp: fetch_ok_def)
  next
    case (tell i wr)
    have i: "i < length ms" using tell(2) ms(2) assms(3) by simp
    have at: "member_at (round_of s) (int i) = Some (ms ! i)" using i ms(1) by (simp add: member_at_def)
    have w: "ms ! i = Members clus ! i" "wr = fst (fetch_poll (Es i) clus (Members clus ! i))"
      using ok i tell(3) by (auto simp: fetch_ok_def Let_def)
    let ?ms = "ms[i := fst (FetchMemberStatus (Es i) clus (Members clus ! i))]"
    have "fetch_tell (Es i) i wr (round_of s) = clus\<lparr>Members := ?ms\<rparr>"
      by (simp add: fetch_tell_def at w commit_is_fetch) (simp add: ms(1) set_member_def)
    then show ?thesis using tell ms ok rest i
      unfolding round_inv_def by (intro exI [of _ ?ms]) (auto simp: fetch_ok_def nth_list_update)
  qed
qed

lemma update_steps_inv:
  assumes "(update_step Es n)\<^sup>*\<^sup>* (update_starts clus) s" "n \<le> length (Members clus)"
  shows "round_inv Es n clus s"
  using assms(1)
proof induction
  case base
  show ?case unfolding round_inv_def
    by (intro exI [of _ "Members clus"]) (simp add: update_starts_def fetch_ok_def Let_def)
qed (rule update_step_inv [OF _ _ assms(2)])

section \<open>Every run can be completed\<close>

definition fetches_left :: "nat \<Rightarrow> round \<Rightarrow> nat" where
  "fetches_left n s = (\<Sum>i<n. case fetch_of s i of Waiting \<Rightarrow> 2 | Fetched wr \<Rightarrow> 1 | Done \<Rightarrow> 0)"

lemma fetches_left_goes:
  assumes "i < n"
  shows "fetches_left n (fetch_goes i a s) + (case fetch_of s i of Waiting \<Rightarrow> 2 | Fetched wr \<Rightarrow> 1 | Done \<Rightarrow> 0)
     = fetches_left n s + (case a of Waiting \<Rightarrow> 2 | Fetched wr \<Rightarrow> 1 | Done \<Rightarrow> 0)"
  using assms by (simp add: fetches_left_def sum.remove [of "{..<n}" i])

lemma update_step_left: "update_step Es n s s' \<Longrightarrow> fetches_left n s' < fetches_left n s"
proof (induction rule: update_step.induct)
  case (ask i s)
  then show ?case using fetches_left_goes [OF ask(1), of "Fetched (fetch_ask (Es i) i (round_of s))" s] by simp
next
  case (tell i s wr)
  have "fetches_left n (s\<lparr>round_of := c\<rparr>) = fetches_left n s" for c by (simp add: fetches_left_def)
  then show ?case using fetches_left_goes [OF tell(1), of Done "s\<lparr>round_of := fetch_tell (Es i) i wr (round_of s)\<rparr>"] tell
    by simp
qed

lemma update_goes_on: "\<not> all_done n s \<Longrightarrow> \<exists>s'. update_step Es n s s'"
proof -
  assume "\<not> all_done n s"
  then obtain i where i: "i < n" "fetch_of s i \<noteq> Done" by (auto simp: all_done_def list_all_iff)
  then show ?thesis by (cases "fetch_of s i") (auto intro: update_step.intros)
qed

lemma update_completes: "\<exists>s'. (update_step Es n)\<^sup>*\<^sup>* s s' \<and> all_done n s'"
proof (induction "fetches_left n s" arbitrary: s rule: less_induct)
  case less
  show ?case
  proof (cases "all_done n s")
    case False
    then obtain t where t: "update_step Es n s t" using update_goes_on by blast
    from less [OF update_step_left [OF t]] obtain s' where "(update_step Es n)\<^sup>*\<^sup>* t s'" "all_done n s'" by blast
    with t show ?thesis by (meson converse_rtranclp_into_rtranclp)
  qed blast
qed

section \<open>Property\<close>

text \<open>C23 (refinement). However the goroutines of \<open>UpdateMemberStatus\<close> interleave, each asking its
  server at one moment and writing the shared cluster at another, when all are done the cluster
  is the one \<open>UpdateMemberStatus\<close> gives, for every order of completion it is given; and
  every run can be completed and has at most two steps per goroutine.\<close>

theorem update_interleavings_agree:
  assumes "distinct order" "set order = {..<n}" "n \<le> length (Members clus)"
    and "(update_step Es n)\<^sup>*\<^sup>* (update_starts clus) s"
  shows "(all_done n s \<longrightarrow> round_of s = fst (UpdateMemberStatus Es order clus))
     \<and> (\<exists>s'. (update_step Es n)\<^sup>*\<^sup>* s s' \<and> all_done n s')
     \<and> (\<forall>s'. update_step Es n s s' \<longrightarrow> fetches_left n s' < fetches_left n s) \<and> fetches_left n s \<le> 2 * n"
proof -
  let ?f = "\<lambda>i. FetchMemberStatus (Es i) clus"
  obtain ms where ms: "round_of s = clus\<lparr>Members := ms\<rparr>" "length ms = length (Members clus)"
    and ok: "\<forall>i < length ms. fetch_ok Es clus i (fetch_of s i) (ms ! i)"
    and rest: "\<forall>i. n \<le> i \<longrightarrow> fetch_of s i = Waiting"
    using update_steps_inv [OF assms(4,3)] by (auto simp: round_inv_def)
  have "round_of s = fst (UpdateMemberStatus Es order clus)" if "all_done n s"
  proof -
    have "fst (go_recover ?f order (Members clus)) = run_all ?f {..<n} (Members clus)"
      using go_recover_pointwise [OF assms(1), of "Members clus" ?f] assms(2,3) by auto
    moreover have "ms = run_all ?f {..<n} (Members clus)"
    proof (rule nth_equalityI)
      fix i assume i: "i < length ms"
      have "i < n \<Longrightarrow> fetch_of s i = Done" using that by (simp add: all_done_def list_all_iff)
      moreover have "\<not> i < n \<Longrightarrow> fetch_of s i = Waiting" using rest by simp
      ultimately show "ms ! i = run_all ?f {..<n} (Members clus) ! i"
        using ok i ms(2) by (auto simp: run_all_nth fetch_ok_def Let_def)
    qed (simp add: ms(2))
    ultimately show ?thesis using ms(1)
      by (cases "go_recover ?f order (Members clus)") (simp add: UpdateMemberStatus_def)
  qed
  moreover have "fetches_left n s \<le> 2 * n"
  proof -
    have "fetches_left n s \<le> (\<Sum>i<n. 2)"
      unfolding fetches_left_def by (intro sum_mono) (simp split: fetch_at.split)
    then show ?thesis by simp
  qed
  ultimately show ?thesis using update_completes update_step_left by blast
qed

theorem update_interleavings_agree_witness:
  "\<exists>s. (update_step sample_envs 3)\<^sup>*\<^sup>* (update_starts sample_nodes) s \<and> all_done 3 s
     \<and> round_of s = fst (UpdateMemberStatus sample_envs [2, 0, 1] sample_nodes)"
proof -
  have o: "distinct [2, 0, 1::nat]" "set [2, 0, 1] = {..<3::nat}" "3 \<le> length (Members sample_nodes)" by auto
  obtain s where s: "(update_step sample_envs 3)\<^sup>*\<^sup>* (update_starts sample_nodes) s" "all_done 3 s"
    using conjunct1 [OF conjunct2 [OF update_interleavings_agree [OF o rtranclp.rtrancl_refl]]] by blast
  with update_interleavings_agree [OF o s(1)] show ?thesis by blast
qed

end
