(* ===== verification/SHA512.thy ===== *)
theory SHA512
  imports Prelude
begin

text \<open>
  \<open>crypto/sha512.Sum512\<close>, after FIPS 180-4: \<open>hashSha512\<close> hashes the user's address and agent with
  it. Words are 64-bit and wrap.
\<close>

unbundle bit_operations_syntax

definition sha_k :: "u64 list" where
  "sha_k =
     [0x428A2F98D728AE22, 0x7137449123EF65CD, 0xB5C0FBCFEC4D3B2F, 0xE9B5DBA58189DBBC,
      0x3956C25BF348B538, 0x59F111F1B605D019, 0x923F82A4AF194F9B, 0xAB1C5ED5DA6D8118,
      0xD807AA98A3030242, 0x12835B0145706FBE, 0x243185BE4EE4B28C, 0x550C7DC3D5FFB4E2,
      0x72BE5D74F27B896F, 0x80DEB1FE3B1696B1, 0x9BDC06A725C71235, 0xC19BF174CF692694,
      0xE49B69C19EF14AD2, 0xEFBE4786384F25E3, 0x0FC19DC68B8CD5B5, 0x240CA1CC77AC9C65,
      0x2DE92C6F592B0275, 0x4A7484AA6EA6E483, 0x5CB0A9DCBD41FBD4, 0x76F988DA831153B5,
      0x983E5152EE66DFAB, 0xA831C66D2DB43210, 0xB00327C898FB213F, 0xBF597FC7BEEF0EE4,
      0xC6E00BF33DA88FC2, 0xD5A79147930AA725, 0x06CA6351E003826F, 0x142929670A0E6E70,
      0x27B70A8546D22FFC, 0x2E1B21385C26C926, 0x4D2C6DFC5AC42AED, 0x53380D139D95B3DF,
      0x650A73548BAF63DE, 0x766A0ABB3C77B2A8, 0x81C2C92E47EDAEE6, 0x92722C851482353B,
      0xA2BFE8A14CF10364, 0xA81A664BBC423001, 0xC24B8B70D0F89791, 0xC76C51A30654BE30,
      0xD192E819D6EF5218, 0xD69906245565A910, 0xF40E35855771202A, 0x106AA07032BBD1B8,
      0x19A4C116B8D2D0C8, 0x1E376C085141AB53, 0x2748774CDF8EEB99, 0x34B0BCB5E19B48A8,
      0x391C0CB3C5C95A63, 0x4ED8AA4AE3418ACB, 0x5B9CCA4F7763E373, 0x682E6FF3D6B2B8A3,
      0x748F82EE5DEFB2FC, 0x78A5636F43172F60, 0x84C87814A1F0AB72, 0x8CC702081A6439EC,
      0x90BEFFFA23631E28, 0xA4506CEBDE82BDE9, 0xBEF9A3F7B2C67915, 0xC67178F2E372532B,
      0xCA273ECEEA26619C, 0xD186B8C721C0C207, 0xEADA7DD6CDE0EB1E, 0xF57D4F7FEE6ED178,
      0x06F067AA72176FBA, 0x0A637DC5A2C898A6, 0x113F9804BEF90DAE, 0x1B710B35131C471B,
      0x28DB77F523047D84, 0x32CAAB7B40C72493, 0x3C9EBE0A15C9BEBC, 0x431D67C49C100D4C,
      0x4CC5D4BECB3E42B6, 0x597F299CFC657E2A, 0x5FCB6FAB3AD6FAEC, 0x6C44198C4A475817]"

definition sha_init :: "u64 list" where
  "sha_init =
     [0x6A09E667F3BCC908, 0xBB67AE8584CAA73B, 0x3C6EF372FE94F82B, 0xA54FF53A5F1D36F1,
      0x510E527FADE682D1, 0x9B05688C2B3E6C1F, 0x1F83D9ABFB41BD6B, 0x5BE0CD19137E2179]"

definition rotr :: "nat \<Rightarrow> u64 \<Rightarrow> u64" where
  "rotr n x = drop_bit n x OR push_bit (64 - n) x"

definition ssig0 :: "u64 \<Rightarrow> u64" where
  "ssig0 x = rotr 1 x XOR rotr 8 x XOR drop_bit 7 x"

definition ssig1 :: "u64 \<Rightarrow> u64" where
  "ssig1 x = rotr 19 x XOR rotr 61 x XOR drop_bit 6 x"

definition bsig0 :: "u64 \<Rightarrow> u64" where
  "bsig0 x = rotr 28 x XOR rotr 34 x XOR rotr 39 x"

definition bsig1 :: "u64 \<Rightarrow> u64" where
  "bsig1 x = rotr 14 x XOR rotr 18 x XOR rotr 41 x"

text \<open>Eight bytes, most significant first.\<close>

definition word_of_bytes :: "bytes \<Rightarrow> u64" where
  "word_of_bytes bs = foldl (\<lambda>v b. push_bit 8 v OR ucast b) 0 bs"

definition bytes_of_word :: "u64 \<Rightarrow> bytes" where
  "bytes_of_word v = map (\<lambda>i. ucast (drop_bit (56 - 8 * i) v)) [0..<8]"

text \<open>The message, a one bit, zeros, and the length in bits in 16 bytes.\<close>

definition pad :: "bytes \<Rightarrow> bytes" where
  "pad m = m @ [0x80] @ replicate (127 - (length m + 16) mod 128) 0
     @ replicate 8 0 @ bytes_of_word (of_nat (8 * length m))"

fun chunks :: "nat \<Rightarrow> nat \<Rightarrow> 'a list \<Rightarrow> 'a list list" where
  "chunks 0 n xs = []"
| "chunks (Suc k) n xs = take n xs # chunks k n (drop n xs)"

text \<open>The message schedule, extended one word at a time.\<close>

fun schedule :: "nat \<Rightarrow> u64 list \<Rightarrow> u64 list" where
  "schedule 0 w = w"
| "schedule (Suc n) w =
     (let t = length w
      in schedule n (w @ [ssig1 (w ! (t - 2)) + w ! (t - 7) + ssig0 (w ! (t - 15)) + w ! (t - 16)]))"

fun round_step :: "u64 list \<Rightarrow> u64 \<times> u64 \<Rightarrow> u64 list" where
  "round_step [a, b, c, d, e, f, g, h] (k, w) =
     (let t1 = h + bsig1 e + ((e AND f) XOR (NOT e AND g)) + k + w;
          t2 = bsig0 a + ((a AND b) XOR (a AND c) XOR (b AND c))
      in [t1 + t2, a, b, c, d + t1, e, f, g])"
| "round_step st kw = st"

definition block :: "u64 list \<Rightarrow> bytes \<Rightarrow> u64 list" where
  "block st bs =
     map2 (+) st (foldl round_step st (zip sha_k (schedule 64 (map word_of_bytes (chunks 16 8 bs)))))"

definition sum512 :: "bytes \<Rightarrow> bytes" where
  "sum512 m = concat (map bytes_of_word
     (foldl block sha_init (chunks (length (pad m) div 128) 128 (pad m))))"

section \<open>The length\<close>

lemma round_step_length: "length (round_step st kw) = length st"
  by (induction st kw rule: round_step.induct) (simp_all add: Let_def)

lemma rounds_length: "length (foldl round_step st kws) = length st"
  by (induction kws arbitrary: st) (simp_all add: round_step_length)

lemma blocks_length: "length (foldl block st bss) = length st"
  by (induction bss arbitrary: st) (simp_all add: block_def rounds_length)

lemma length_sum512 [simp]: "length (sum512 m) = 64"
proof -
  have "length (concat (map bytes_of_word ws)) = 8 * length ws" for ws
    by (induction ws) (simp_all add: bytes_of_word_def)
  then show ?thesis by (simp add: sum512_def blocks_length sha_init_def)
qed

end
