(* ===== verification/WebId.thy ===== *)
theory WebId
  imports GoStrings SHA512
begin

text \<open>
  \<open>backend/web/utils_id.go\<close>: a user is known by an id made of the client's address without its
  dots, a class of its user agent, and fifteen characters of a hash. The ids shown to others are
  masked. A request is what the code reads of \<open>http.Request\<close>; its header maps canonical keys to
  values. A Go expression that panics is \<open>Panics\<close>.
\<close>

section \<open>The request\<close>

record request =
  Method :: string
  Header :: "string \<Rightarrow> string list"
  RemoteAddr :: string
  Path :: string

definition Header_Get :: "request \<Rightarrow> string \<Rightarrow> string" where
  "Header_Get req k = (case Header req (canonical_header_key k) of [] \<Rightarrow> [] | v # vs \<Rightarrow> v)"

definition UserAgent :: "request \<Rightarrow> string" where
  "UserAgent req = Header_Get req ''User-Agent''"

text \<open>The loop over the three spellings.\<close>

fun first_header :: "request \<Rightarrow> string list \<Rightarrow> string" where
  "first_header req [] = []"
| "first_header req (k # ts) =
     (let v = Header_Get req k in if v \<noteq> [] then v else first_header req ts)"

definition getRealIP :: "request \<Rightarrow> string" where
  "getRealIP req = first_header req [''X-Forwarded-For'', ''x-forwarded-for'', ''X-FORWARDED-FOR'']"

definition hashSha512 :: "string \<Rightarrow> string" where
  "hashSha512 s = base64 (sum512 (bytes_of_string s))"

section \<open>The class of a user agent\<close>

definition slice :: "string \<Rightarrow> int \<Rightarrow> int \<Rightarrow> string outcome" where
  "slice s a b = (case subslice s a b of None \<Rightarrow> Panics slice_panic | Some t \<Rightarrow> Returns t)"

definition os_class :: "string \<Rightarrow> string outcome" where
  "os_class raw =
     (if contains raw ''linux'' then Returns ''linux''
      else if contains raw ''macintosh'' \<or> contains raw ''macos'' then Returns ''mac''
      else if contains raw ''windows'' then Returns ''window''
      else if contains raw ''iphone'' then Returns ''iphone''
      else if contains raw ''android'' then Returns ''android''
      else if int (length raw) > 7 then slice raw 2 7
      else Returns raw)"

definition browser_class :: "string \<Rightarrow> string outcome" where
  "browser_class raw =
     (if contains raw ''firefox/'' \<and> \<not> contains raw ''seammonkey/'' then Returns ''firefox''
      else if contains raw '';msie'' then Returns ''ie''
      else if contains raw ''safari/'' \<and> \<not> contains raw ''chrome/'' \<and> \<not> contains raw ''chromium/''
        then Returns ''safari''
      else if contains raw ''chrome/'' \<or> contains raw ''chromium/'' then Returns ''chrome''
      else if int (length raw) > 15 then slice raw 9 14
      else Returns [])"

definition classifyUA :: "string \<Rightarrow> string outcome" where
  "classifyUA ua =
     (let raw = remove_char CHR '' '' (to_lower ua)
      in case os_class raw of
           Panics p \<Rightarrow> Panics p
         | Returns us \<Rightarrow> (case browser_class raw of
                           Panics p \<Rightarrow> Panics p | Returns b \<Rightarrow> Returns (us @ b)))"

section \<open>The id and its mask\<close>

definition user_ip :: "request \<Rightarrow> string" where
  "user_ip req =
     (let ip = getRealIP req;
          ip' = (if ip = [] then hd (split_char CHR '':'' (RemoteAddr req)) else ip)
      in trim_space (remove_char CHR ''.'' ip'))"

definition generateUserID :: "request \<Rightarrow> string outcome" where
  "generateUserID req =
     (let ip = user_ip req; ua = UserAgent req
      in case classifyUA ua of
           Panics p \<Rightarrow> Panics p
         | Returns c \<Rightarrow>
             (case slice (hashSha512 (ip @ ua)) 0 15 of
                Panics p \<Rightarrow> Panics p | Returns h \<Rightarrow> Returns (ip @ c @ h)))"

text \<open>\<open>bts[i] = 'x'\<close> for each index in turn.\<close>

fun mask_at :: "nat list \<Rightarrow> string \<Rightarrow> string outcome" where
  "mask_at [] bts = Returns bts"
| "mask_at (i # is) bts =
     (if i < length bts then mask_at is (bts[i := CHR ''x'']) else Panics index_panic)"

definition maskUserID :: "string \<Rightarrow> string outcome" where
  "maskUserID i =
     (case mask_at [2, 3, 4, 5, 6, 7, 8] i of
        Panics p \<Rightarrow> Panics p
      | Returns bs \<Rightarrow>
          if length bs > 23 then
            (case slice bs 0 23 of Panics p \<Rightarrow> Panics p | Returns t \<Rightarrow> Returns (t @ ''...''))
          else Returns bs)"

section \<open>Lemmas\<close>

lemma slice_ok: "0 \<le> a \<Longrightarrow> a \<le> b \<Longrightarrow> b \<le> int (length s) \<Longrightarrow>
    slice s a b = Returns (take (nat (b - a)) (drop (nat a) s))"
  by (simp add: slice_def subslice_def)

lemma os_class_returns: "\<exists>us. os_class raw = Returns us"
  by (simp add: os_class_def slice_ok)

lemma browser_class_returns: "\<exists>us. browser_class raw = Returns us"
  by (simp add: browser_class_def slice_ok)

lemma classifyUA_returns: "\<exists>us. classifyUA ua = Returns us"
  using os_class_returns browser_class_returns unfolding classifyUA_def Let_def
  by (metis outcome.simps(5))

lemma length_hashSha512 [simp]: "length (hashSha512 s) = 88"
  by (simp add: hashSha512_def length_base64)

lemma generateUserID_eq:
  "generateUserID req = (case classifyUA (UserAgent req) of Panics p \<Rightarrow> Panics p
     | Returns c \<Rightarrow> Returns (user_ip req @ c @ take 15 (hashSha512 (user_ip req @ UserAgent req))))"
  by (simp add: generateUserID_def Let_def slice_ok split: outcome.splits)

lemma generateUserID_returns: "\<exists>i. generateUserID req = Returns i \<and> 15 \<le> length i"
  using classifyUA_returns [of "UserAgent req"] by (auto simp: generateUserID_eq)

lemma mask_eq:
  assumes "9 \<le> length i"
  shows "mask_at [2, 3, 4, 5, 6, 7, 8] i = Returns (take 2 i @ ''xxxxxxx'' @ drop 9 i)"
proof -
  have "\<exists>a b c d e f g h j r. i = a # b # c # d # e # f # g # h # j # r"
    using assms by (auto simp: numeral_eq_Suc Suc_le_length_iff)
  then show ?thesis by auto
qed

lemma maskUserID_eq:
  "maskUserID i = (if length i < 9 then Panics index_panic
     else Returns (take 2 i @ ''xxxxxxx'' @ (if length i > 23 then take 14 (drop 9 i) @ ''...'' else drop 9 i)))"
proof (cases "length i < 9")
  case True
  have "mask_at is i = Panics index_panic" if "\<exists>j\<in>set is. length i \<le> j" for "is" and i :: string
    using that by (induction "is" i rule: mask_at.induct) auto
  from this [of "[2, 3, 4, 5, 6, 7, 8]" i] True show ?thesis by (simp add: maskUserID_def)
next
  case False
  then have m: "mask_at [2, 3, 4, 5, 6, 7, 8] i = Returns (take 2 i @ ''xxxxxxx'' @ drop 9 i)"
    by (intro mask_eq) simp
  have len: "length (take 2 i @ ''xxxxxxx'' @ drop 9 i) = length i" using False by simp
  have "take 23 (take 2 i @ ''xxxxxxx'' @ drop 9 i) = take 2 i @ ''xxxxxxx'' @ take 14 (drop 9 i)"
    if "23 < length i" using that by simp
  with False m len show ?thesis
    by (simp add: maskUserID_def slice_ok del: append.simps)
qed

section \<open>Properties\<close>

text \<open>C32 (safety). Every request gets an id, whatever its headers and address; the id is at least 15
  bytes long, so masking it never panics, although \<open>maskUserID\<close> panics on any string of fewer
  than nine bytes.\<close>

theorem every_user_id_can_be_masked:
  "(\<exists>i m. generateUserID req = Returns i \<and> 15 \<le> length i \<and> maskUserID i = Returns m)
     \<and> (maskUserID s = Panics index_panic \<longleftrightarrow> length s < 9)"
proof -
  obtain i where i: "generateUserID req = Returns i" "15 \<le> length i"
    using generateUserID_returns by blast
  then have "\<exists>m. maskUserID i = Returns m" by (simp add: maskUserID_eq)
  with i show ?thesis by (auto simp: maskUserID_eq)
qed

text \<open>Masking hides exactly seven bytes: two ids that differ only in bytes 2 to 8 have
  the same mask, and from byte 9 on (up to byte 22) the id is shown as it is. An address of ten
  digits or more, such as \<open>203.0.113.195\<close>, shows its last digits.\<close>

theorem mask_hides_seven_bytes:
  assumes "length a = 2" "length b = 7" "length b' = 7"
  shows "maskUserID (a @ b @ r) = maskUserID (a @ b' @ r)
    \<and> (\<exists>m. maskUserID (a @ b @ r) = Returns m \<and> take 2 m = a \<and> take 14 (drop 9 m) = take 14 r)"
proof -
  have "maskUserID (a @ b @ r) = Returns (a @ ''xxxxxxx'' @ (if length r > 14 then take 14 r @ ''...'' else r))"
    if "length b = 7" for b
    using assms(1) that by (simp add: maskUserID_eq del: append.simps)
  from this [OF assms(2)] this [OF assms(3)] show ?thesis
    using assms(1) by (auto simp del: append.simps)
qed

theorem mask_hides_seven_bytes_witness:
  "\<exists>m. maskUserID ''2030113195linux'' = Returns m \<and> take 14 (drop 9 m) = ''5linux''"
  using mask_hides_seven_bytes [of "''20''" "''3011319''" "''3011319''" "''5linux''"] by simp blast

text \<open>The three spellings of the forwarding header are one lookup: the real address
  is the first value under the canonical key \<open>X-Forwarded-For\<close>.\<close>

theorem real_ip_is_one_lookup:
  "getRealIP req = (case Header req ''X-Forwarded-For'' of [] \<Rightarrow> [] | v # vs \<Rightarrow> v)"
proof -
  have "canonical_header_key ''X-Forwarded-For'' = ''X-Forwarded-For''"
    "canonical_header_key ''x-forwarded-for'' = ''X-Forwarded-For''"
    "canonical_header_key ''X-FORWARDED-FOR'' = ''X-Forwarded-For''" by code_simp+
  then show ?thesis by (auto simp: getRealIP_def Header_Get_def Let_def split: list.splits)
qed

text \<open>The class of an agent that names several systems is the first test's: an
  agent with \<open>linux\<close> is never \<open>android\<close>, and one with \<open>mac os\<close>, as iPhones send, is \<open>mac\<close>,
  never \<open>iphone\<close>, unless it names \<open>linux\<close> too.\<close>

theorem android_and_iphone_are_shadowed:
  fixes ua :: string
  defines "raw \<equiv> remove_char CHR '' '' (to_lower ua)"
  shows "(contains raw ''linux'' \<longrightarrow> (\<exists>b. classifyUA ua = Returns (''linux'' @ b)))
     \<and> (contains raw ''macos'' \<and> \<not> contains raw ''linux'' \<longrightarrow> (\<exists>b. classifyUA ua = Returns (''mac'' @ b)))"
  using browser_class_returns [of raw] by (auto simp: classifyUA_def raw_def os_class_def)

theorem android_and_iphone_are_shadowed_witness:
  "\<exists>b. classifyUA ''(iPhone; like Mac OS X)'' = Returns (''mac'' @ b)"
proof -
  have "contains (remove_char CHR '' '' (to_lower ''(iPhone; like Mac OS X)'')) ''macos''"
    "\<not> contains (remove_char CHR '' '' (to_lower ''(iPhone; like Mac OS X)'')) ''linux''" by code_simp+
  then show ?thesis using android_and_iphone_are_shadowed [of "''(iPhone; like Mac OS X)''"] by blast
qed

end
