(* ===== verification/GoTime.thy ===== *)
theory GoTime
  imports GoStrings "HOL-Library.Signed_Division"
begin

text \<open>
  The parts of Go's package \<open>time\<close> the code uses: a \<open>Duration\<close> is a signed 64-bit number of
  nanoseconds, \<open>Time\<close> is nanoseconds on one clock, \<open>None\<close> the zero \<open>Time\<close>, which lies so far
  back that \<open>Since\<close> saturates.
\<close>

definition max_duration :: int where
  "max_duration = 9223372036854775807"

definition min_duration :: int where
  "min_duration = - 9223372036854775808"

definition millisecond :: int where
  "millisecond = 1000000"

definition since :: "int option \<Rightarrow> int \<Rightarrow> int" where
  "since t now = (case t of None \<Rightarrow> max_duration
     | Some u \<Rightarrow> max min_duration (min max_duration (now - u)))"

text \<open>\<open>d /= scale; d *= scale\<close>: Go's division truncates towards zero, and panics on zero.\<close>

definition roundDownDuration :: "int \<Rightarrow> int \<Rightarrow> int outcome" where
  "roundDownDuration d scale =
     (if scale = 0 then Panics ''integer divide by zero''
      else Returns (i64 (i64 (d sdiv scale) * scale)))"

text \<open>\<open>Duration.String\<close>. \<open>fmt_frac\<close> prints the fraction of \<open>v / 10 ^ prec\<close>, without trailing
  zeros and without the point when it is zero.\<close>

fun frac_digits :: "nat \<Rightarrow> nat \<Rightarrow> string" where
  "frac_digits 0 v = []"
| "frac_digits (Suc prec) v = frac_digits prec (v div 10) @ [digit v]"

definition strip_zeros :: "string \<Rightarrow> string" where
  "strip_zeros s = rev (dropWhile (\<lambda>c. c = CHR ''0'') (rev s))"

definition fmt_frac :: "nat \<Rightarrow> nat \<Rightarrow> string" where
  "fmt_frac prec v = (let s = strip_zeros (frac_digits prec v) in if s = [] then [] else CHR ''.'' # s)"

definition fmt_unit :: "nat \<Rightarrow> nat \<Rightarrow> string" where
  "fmt_unit prec u = dec (u div 10 ^ prec) @ fmt_frac prec u"

definition duration_string :: "int \<Rightarrow> string" where
  "duration_string d =
     (let u = nat \<bar>d\<bar>; neg = (if d < 0 then ''-'' else []) in
      if u = 0 then ''0s''
      else if u < 1000 then neg @ dec u @ ''ns''
      else if u < 1000000 then neg @ fmt_unit 3 u @ [CHR 0xC2, CHR 0xB5, CHR ''s'']
      else if u < 1000000000 then neg @ fmt_unit 6 u @ ''ms''
      else
        let secs = u div 1000000000; mins = secs div 60; hours = mins div 60
        in neg @ (if hours > 0 then dec hours @ ''h'' else [])
               @ (if mins > 0 then dec (mins mod 60) @ ''m'' else [])
               @ dec (secs mod 60) @ fmt_frac 9 u @ ''s'')"

section \<open>Rounding\<close>

lemma sdiv_mult_bounds:
  fixes d s :: int assumes "0 < s"
  shows "\<bar>d sdiv s * s\<bar> \<le> \<bar>d\<bar>" "\<bar>d\<bar> - \<bar>d sdiv s * s\<bar> < s" "0 \<le> d \<Longrightarrow> 0 \<le> d sdiv s * s"
    "d \<le> 0 \<Longrightarrow> d sdiv s * s \<le> 0" "s dvd d sdiv s * s"
proof -
  have eq: "d sdiv s = sgn d * (\<bar>d\<bar> div s)" using assms by (simp add: signed_divide_int_def sgn_if)
  have m: "\<bar>d\<bar> div s * s = \<bar>d\<bar> - \<bar>d\<bar> mod s" by (simp add: minus_mod_eq_div_mult)
  have nn: "0 \<le> \<bar>d\<bar> div s * s" using assms by (simp add: pos_imp_zdiv_nonneg_iff)
  have p: "d sdiv s * s = sgn d * (\<bar>d\<bar> div s * s)" by (simp add: eq mult.assoc)
  have lt: "0 \<le> \<bar>d\<bar> mod s" "\<bar>d\<bar> mod s < s" using assms by simp_all
  show "\<bar>d sdiv s * s\<bar> \<le> \<bar>d\<bar>" "\<bar>d\<bar> - \<bar>d sdiv s * s\<bar> < s"
    "0 \<le> d \<Longrightarrow> 0 \<le> d sdiv s * s" "d \<le> 0 \<Longrightarrow> d sdiv s * s \<le> 0" "s dvd d sdiv s * s"
    using nn m lt unfolding p by (auto simp: sgn_if split: if_splits)
qed

text \<open>For a positive scale the result is the multiple of the scale next to the duration on the
  side of zero: down for a positive duration, up for a negative one.\<close>

lemma roundDownDuration_ok:
  assumes s: "0 < s" "s \<le> max_duration" and d: "min_duration \<le> d" "d \<le> max_duration"
  shows "roundDownDuration d s = Returns (d sdiv s * s)"
proof -
  have b: "\<bar>d sdiv s * s\<bar> \<le> \<bar>d\<bar>" using sdiv_mult_bounds(1) [OF s(1)] .
  have "\<bar>d sdiv s\<bar> * 1 \<le> \<bar>d sdiv s\<bar> * s" using s(1) by (intro mult_left_mono) auto
  then have q: "\<bar>d sdiv s\<bar> \<le> \<bar>d\<bar>" using b s(1) by (simp add: abs_mult)
  have sg: "0 \<le> d \<Longrightarrow> 0 \<le> d sdiv s" "d \<le> 0 \<Longrightarrow> d sdiv s \<le> 0"
    using s(1) by (auto simp: signed_divide_int_def sgn_if pos_imp_zdiv_nonneg_iff)
  have "i64 (d sdiv s) = d sdiv s"
    using q d sg by (intro i64_id) (auto simp: min_duration_def max_duration_def abs_if split: if_splits)
  moreover have "i64 (d sdiv s * s) = d sdiv s * s"
    using b d sdiv_mult_bounds(3,4) [OF s(1), of d]
    by (intro i64_id) (auto simp: min_duration_def max_duration_def abs_if split: if_splits)
  ultimately show ?thesis using s by (simp add: roundDownDuration_def)
qed

end
