(* ===== verification/WebRand.thy ===== *)
theory WebRand
  imports GoTime
begin

text \<open>
  \<open>backend/web/utils.go\<close>: random keys and values for the stress request. A random source is the
  stream of what its \<open>Int63\<close> returns, a number below \<open>2 ^ 63\<close> each time; every call of \<open>randBytes\<close>
  has a source of its own. The loop of \<open>randBytes\<close> ends only if the source yields enough
  indices below 52, so it is partial, \<open>None\<close> meaning that it never ends.
\<close>

section \<open>randBytes\<close>

definition letterBytes :: string where
  "letterBytes = ''abcdefghijklmnopqrstuvwxyzABCDEFGHIJKLMNOPQRSTUVWXYZ''"

definition letterIdxMax :: nat where
  "letterIdxMax = 63 div 6"

text \<open>\<open>i\<close> is one more than the code's \<open>i\<close>: the bytes still to be written. \<open>cache & letterIdxMask\<close> and
  \<open>cache >>= letterIdxBits\<close> are the remainder and quotient by 64 of a number that is not
  negative.\<close>

partial_function (option) rand_loop ::
  "(nat \<Rightarrow> nat) \<Rightarrow> nat \<Rightarrow> nat \<Rightarrow> nat \<Rightarrow> nat \<Rightarrow> string \<Rightarrow> string option" where
  "rand_loop src t cache remain i b =
     (if i = 0 then Some b
      else
        let (t, cache, remain) = (if remain = 0 then (Suc t, src t, letterIdxMax) else (t, cache, remain));
            idx = cache mod 64;
            (i, b) = (if idx < length letterBytes then (i - 1, b[i - 1 := letterBytes ! idx]) else (i, b))
        in rand_loop src t (cache div 64) (remain - 1) i b)"

declare rand_loop.simps [code]

definition randBytes :: "(nat \<Rightarrow> nat) \<Rightarrow> int \<Rightarrow> string outcome option" where
  "randBytes src bytesN =
     (if bytesN < 0 then Some (Panics ''makeslice: len out of range'')
      else map_option Returns
        (rand_loop src 1 (src 0) letterIdxMax (nat bytesN) (replicate (nat bytesN) (CHR 0x00))))"

section \<open>The indices a source yields\<close>

definition idx_at :: "(nat \<Rightarrow> nat) \<Rightarrow> nat \<Rightarrow> nat" where
  "idx_at src k = src (k div 10) div 64 ^ (k mod 10) mod 64"

definition at_pos :: "(nat \<Rightarrow> nat) \<Rightarrow> nat \<Rightarrow> nat \<Rightarrow> nat \<Rightarrow> nat \<Rightarrow> bool" where
  "at_pos src k t cache remain =
     (remain = 0 \<and> k = 10 * t
      \<or> 0 < remain \<and> remain \<le> 10 \<and> 0 < t \<and> k = 10 * (t - 1) + (10 - remain)
        \<and> cache = src (t - 1) div 64 ^ (10 - remain))"

lemma letterIdxMax_10 [simp]: "letterIdxMax = 10"
  by (simp add: letterIdxMax_def)

lemma length_letterBytes [simp]: "length letterBytes = 52"
  by (simp add: letterBytes_def)

lemma at_pos_start: "at_pos src 0 1 (src 0) 10"
  by (simp add: at_pos_def)

lemma at_pos_some:
  assumes "0 < remain" "remain \<le> 10" "0 < t" "k = 10 * (t - 1) + (10 - remain)"
    "cache = src (t - 1) div 64 ^ (10 - remain)"
  shows "cache mod 64 = idx_at src k \<and> at_pos src (Suc k) t (cache div 64) (remain - 1)"
proof -
  obtain t' where t: "t = Suc t'" using assms(3) by (cases t) auto
  define r where "r = 10 - remain"
  have r: "r < 10" "remain = 10 - r" "10 - remain = r" using assms(1,2) by (simp_all add: r_def)
  have k: "k = 10 * t' + r" using assms(4) t r by simp
  have c: "cache = src t' div 64 ^ r" using assms(5) t r by simp
  have i: "cache mod 64 = idx_at src k" using k c r(1) by (simp add: idx_at_def)
  have "64 ^ Suc r = (64::nat) ^ r * 64" by simp
  then have "cache div 64 = src t' div 64 ^ Suc r" unfolding c by (simp only: div_mult2_eq)
  then have "at_pos src (Suc k) t (cache div 64) (remain - 1)"
    using k t r by (cases "r = 9") (auto simp: at_pos_def)
  with i show ?thesis by simp
qed

text \<open>One turn of the loop at position \<open>k\<close> of the indices.\<close>

lemma rand_loop_step:
  assumes "at_pos src k t cache remain"
  shows "\<exists>t' cache' remain'. at_pos src (Suc k) t' cache' remain'
     \<and> rand_loop src t cache remain (Suc i) b
         = (if idx_at src k < 52 then rand_loop src t' cache' remain' i (b[i := letterBytes ! idx_at src k])
            else rand_loop src t' cache' remain' (Suc i) b)"
proof (cases "remain = 0")
  case True
  then have "k = 10 * (Suc t - 1) + (10 - 10)" using assms by (simp add: at_pos_def)
  from at_pos_some [of 10 "Suc t" k "src t" src, OF _ _ _ this] True show ?thesis
    by (intro exI [of _ "Suc t"] exI [of _ "src t div 64"] exI [of _ 9])
      (subst rand_loop.simps, simp add: Let_def)
next
  case False
  then have "cache mod 64 = idx_at src k \<and> at_pos src (Suc k) t (cache div 64) (remain - 1)"
    using assms by (intro at_pos_some) (auto simp: at_pos_def)
  with False show ?thesis
    by (intro exI [of _ t] exI [of _ "cache div 64"] exI [of _ "remain - 1"])
      (subst rand_loop.simps, simp add: Let_def)
qed

text \<open>A source that never runs out of letters.\<close>

definition has_letters :: "(nat \<Rightarrow> nat) \<Rightarrow> bool" where
  "has_letters src = (\<forall>k. \<exists>d. idx_at src (k + d) < 52)"

lemma rand_loop_next:
  assumes "at_pos src k t cache remain" "idx_at src (k + d) < 52"
  shows "\<exists>k' t' cache' remain'. at_pos src k' t' cache' remain' \<and> idx_at src (k' - 1) < 52 \<and> 0 < k'
     \<and> rand_loop src t cache remain (Suc i) b
         = rand_loop src t' cache' remain' i (b[i := letterBytes ! idx_at src (k' - 1)])"
  using assms
proof (induction d arbitrary: k t cache remain)
  case 0
  from rand_loop_step [OF 0(1), of i b] 0(2) show ?case by (metis Nat.add_0_right diff_Suc_1 zero_less_Suc)
next
  case (Suc d)
  obtain t' cache' remain' where st: "at_pos src (Suc k) t' cache' remain'"
    "rand_loop src t cache remain (Suc i) b
         = (if idx_at src k < 52 then rand_loop src t' cache' remain' i (b[i := letterBytes ! idx_at src k])
            else rand_loop src t' cache' remain' (Suc i) b)"
    using rand_loop_step [OF Suc.prems(1), of i b] by blast
  show ?case
  proof (cases "idx_at src k < 52")
    case True
    then show ?thesis using st by (metis diff_Suc_1 zero_less_Suc)
  next
    case False
    have "idx_at src (Suc k + d) < 52" using Suc.prems(2) by simp
    from Suc.IH [OF st(1) this] st(2) False show ?thesis by simp
  qed
qed

lemma rand_loop_returns:
  assumes "has_letters src" "at_pos src k t cache remain" "i \<le> length b"
  shows "\<exists>b'. rand_loop src t cache remain i b = Some b' \<and> length b' = length b
     \<and> drop i b' = drop i b \<and> set (take i b') \<subseteq> set letterBytes"
  using assms(2,3)
proof (induction i arbitrary: k t cache remain b)
  case 0
  then show ?case by (subst rand_loop.simps) simp
next
  case (Suc i)
  obtain d where "idx_at src (k + d) < 52" using assms(1) by (auto simp: has_letters_def)
  from rand_loop_next [OF Suc.prems(1) this, of i b] obtain k' t' cache' remain' where
    st: "at_pos src k' t' cache' remain'" "idx_at src (k' - 1) < 52"
      "rand_loop src t cache remain (Suc i) b
         = rand_loop src t' cache' remain' i (b[i := letterBytes ! idx_at src (k' - 1)])" by blast
  let ?c = "letterBytes ! idx_at src (k' - 1)"
  have "i \<le> length (b[i := ?c])" using Suc.prems(2) by simp
  from Suc.IH [OF st(1) this] obtain b' where b': "rand_loop src t' cache' remain' i (b[i := ?c]) = Some b'"
    "length b' = length b" "drop i b' = drop i (b[i := ?c])" "set (take i b') \<subseteq> set letterBytes" by auto
  have i: "i < length b'" using Suc.prems(2) b'(2) by simp
  have "drop i b' = ?c # drop (Suc i) b"
    using b'(3) Suc.prems(2) by (simp add: drop_update_swap Cons_nth_drop_Suc [symmetric])
  then have "b' ! i = ?c" "drop (Suc i) b' = drop (Suc i) b"
    using i by (metis Cons_nth_drop_Suc list.inject)+
  moreover have "?c \<in> set letterBytes" using st(2) by simp
  ultimately show ?case using b' st(3) i by (auto simp: take_Suc_conv_app_nth)
qed

lemma randBytes_returns:
  assumes "has_letters src" "0 \<le> n"
  shows "\<exists>b. randBytes src n = Some (Returns b) \<and> int (length b) = n \<and> set b \<subseteq> set letterBytes"
proof -
  let ?z = "replicate (nat n) (CHR 0x00)"
  obtain b where "rand_loop src 1 (src 0) 10 (nat n) ?z = Some b" "length b = length ?z"
    "set (take (nat n) b) \<subseteq> set letterBytes"
    using rand_loop_returns [OF assms(1) at_pos_start, of "nat n" ?z] by auto
  with assms(2) show ?thesis by (simp add: randBytes_def)
qed

section \<open>multiRandStrings and multiRandKeyValues\<close>

text \<open>\<open>srcs j\<close> is the source of the \<open>j\<close>-th call of \<open>randBytes\<close>. The map is the set \<open>m\<close> of the strings
  made so far, as a list.\<close>

partial_function (option) multi_loop ::
  "(nat \<Rightarrow> nat \<Rightarrow> nat) \<Rightarrow> nat \<Rightarrow> int \<Rightarrow> nat \<Rightarrow> string \<Rightarrow> string list \<Rightarrow> string list
     \<Rightarrow> (string list \<times> nat) outcome option" where
  "multi_loop srcs j bytesN sliceN prefix rs m =
     (if length rs = sliceN then Some (Returns (rs, j))
      else case randBytes (srcs j) bytesN of
        None \<Rightarrow> None
      | Some (Panics p) \<Rightarrow> Some (Panics p)
      | Some (Returns b) \<Rightarrow>
          let s = prefix @ b @ dec (length rs + 1)
          in if s \<notin> set m then multi_loop srcs (Suc j) bytesN sliceN prefix (rs @ [s]) (s # m)
             else multi_loop srcs (Suc j) bytesN sliceN prefix rs m)"

definition multiRandStrings ::
  "(nat \<Rightarrow> nat \<Rightarrow> nat) \<Rightarrow> nat \<Rightarrow> int \<Rightarrow> int \<Rightarrow> string \<Rightarrow> (string list \<times> nat) outcome option" where
  "multiRandStrings srcs j bytesN sliceN prefix =
     (if sliceN < 0 then Some (Panics ''makeslice: cap out of range'')
      else multi_loop srcs j bytesN (nat sliceN) prefix [] [])"

record KeyValue =
  Key :: string
  Value :: string

text \<open>The keys are made first, then the values, with the sources that follow.\<close>

definition multiRandKeyValues ::
  "(nat \<Rightarrow> nat \<Rightarrow> nat) \<Rightarrow> string \<Rightarrow> string \<Rightarrow> int \<Rightarrow> int \<Rightarrow> KeyValue list outcome option" where
  "multiRandKeyValues srcs keyPrefix valPrefix bytesN sliceN =
     (case multiRandStrings srcs 0 bytesN sliceN keyPrefix of
        None \<Rightarrow> None
      | Some (Panics p) \<Rightarrow> Some (Panics p)
      | Some (Returns (keys, j)) \<Rightarrow>
          (case multiRandStrings srcs j bytesN sliceN valPrefix of
             None \<Rightarrow> None
           | Some (Panics p) \<Rightarrow> Some (Panics p)
           | Some (Returns (vals, j')) \<Rightarrow>
               Some (Returns (map (\<lambda>(k, v). \<lparr>Key = k, Value = v\<rparr>) (zip keys vals)))))"

text \<open>The duplicate test never fires: the strings of one call have random parts of one length
  and different numbers at the end.\<close>

definition numbered :: "int \<Rightarrow> string \<Rightarrow> nat \<Rightarrow> string \<Rightarrow> bool" where
  "numbered n prefix k s = (\<exists>b. s = prefix @ b @ dec (k + 1) \<and> int (length b) = n \<and> set b \<subseteq> set letterBytes)"

lemma numbered_inj:
  assumes "numbered n prefix k s" "numbered n prefix l s" shows "k = l"
proof -
  obtain b where b: "s = prefix @ b @ dec (k + 1)" "int (length b) = n"
    using assms(1) unfolding numbered_def by blast
  obtain c where c: "s = prefix @ c @ dec (l + 1)" "int (length c) = n"
    using assms(2) unfolding numbered_def by blast
  have "b @ dec (k + 1) = c @ dec (l + 1)" using b(1) c(1) by (metis same_append_eq)
  moreover have "length b = length c" using b(2) c(2) by (metis of_nat_eq_iff)
  ultimately have "dec (k + 1) = dec (l + 1)" by (metis append_eq_append_conv)
  then show "k = l" by (simp only: dec_inj add_right_cancel)
qed

lemma multi_loop_returns:
  assumes "\<forall>j. has_letters (srcs j)" "0 \<le> n" "length rs + d = sliceN" "set m = set rs"
    and "\<forall>k < length rs. numbered n prefix k (rs ! k)"
  shows "\<exists>rs'. multi_loop srcs j n sliceN prefix rs m = Some (Returns (rs', j + d)) \<and> length rs' = sliceN
     \<and> (\<forall>k < sliceN. numbered n prefix k (rs' ! k))"
  using assms(3-5)
proof (induction d arbitrary: rs m j)
  case 0
  then show ?case by (subst multi_loop.simps) simp
next
  case (Suc d)
  obtain b where b: "randBytes (srcs j) n = Some (Returns b)" "int (length b) = n" "set b \<subseteq> set letterBytes"
    using randBytes_returns [of "srcs j" n] assms(1,2) by blast
  let ?s = "prefix @ b @ dec (length rs + 1)"
  have num: "numbered n prefix (length rs) ?s" using b(2,3) by (auto simp: numbered_def)
  have "?s \<notin> set m"
  proof
    assume "?s \<in> set m"
    then obtain k where "k < length rs" "rs ! k = ?s" using Suc.prems(2) by (metis in_set_conv_nth)
    then show False using Suc.prems(3) numbered_inj num by (metis less_irrefl)
  qed
  then have eq: "multi_loop srcs j n sliceN prefix rs m
      = multi_loop srcs (Suc j) n sliceN prefix (rs @ [?s]) (?s # m)"
    using b(1) Suc.prems(1) by (subst multi_loop.simps) (simp add: Let_def)
  have "\<forall>k < length (rs @ [?s]). numbered n prefix k ((rs @ [?s]) ! k)"
    using Suc.prems(3) num by (auto simp: nth_append less_Suc_eq)
  moreover have "length (rs @ [?s]) + d = sliceN" "set (?s # m) = set (rs @ [?s])"
    using Suc.prems(1,2) by auto
  ultimately show ?case using Suc.IH [of "rs @ [?s]" "?s # m" "Suc j"] by (simp only: eq add_Suc_shift)
qed

lemma multiRandStrings_returns:
  assumes "\<forall>j. has_letters (srcs j)" "0 \<le> n" "0 \<le> sliceN"
  shows "\<exists>rs. multiRandStrings srcs j n sliceN prefix = Some (Returns (rs, j + nat sliceN))
     \<and> length rs = nat sliceN \<and> (\<forall>k < nat sliceN. numbered n prefix k (rs ! k))"
  using multi_loop_returns [OF assms(1,2), of "[]" "nat sliceN" "nat sliceN" "[]" prefix j] assms(3)
  by (simp add: multiRandStrings_def)

section \<open>Properties\<close>

text \<open>C34 (termination). If every source keeps yielding letters, \<open>multiRandKeyValues\<close> returns: as many
  pairs as asked for, the \<open>k\<close>-th key and value being their prefix, the asked number of letters,
  and \<open>k+1\<close>; no two keys are equal. The test for duplicates is never needed.\<close>

theorem random_pairs_are_numbered_and_distinct:
  assumes "\<forall>j. has_letters (srcs j)" "0 \<le> bytesN" "0 \<le> sliceN"
  shows "\<exists>kvs. multiRandKeyValues srcs kp vp bytesN sliceN = Some (Returns kvs)
     \<and> int (length kvs) = sliceN \<and> distinct (map Key kvs)
     \<and> (\<forall>k < length kvs. numbered bytesN kp k (Key (kvs ! k)) \<and> numbered bytesN vp k (Value (kvs ! k)))"
proof -
  obtain keys where k: "multiRandStrings srcs 0 bytesN sliceN kp = Some (Returns (keys, nat sliceN))"
    "length keys = nat sliceN" "\<forall>k < nat sliceN. numbered bytesN kp k (keys ! k)"
    using multiRandStrings_returns [OF assms, of 0 kp] by auto
  obtain vals where v: "multiRandStrings srcs (nat sliceN) bytesN sliceN vp = Some (Returns (vals, nat sliceN + nat sliceN))"
    "length vals = nat sliceN" "\<forall>k < nat sliceN. numbered bytesN vp k (vals ! k)"
    using multiRandStrings_returns [OF assms, of "nat sliceN" vp] by auto
  let ?kvs = "map (\<lambda>(k, v). \<lparr>Key = k, Value = v\<rparr>) (zip keys vals)"
  have "map Key ?kvs = keys" using k(2) v(2) by (intro nth_equalityI) auto
  moreover have "distinct keys"
    unfolding distinct_conv_nth using k(2,3) numbered_inj by metis
  ultimately show ?thesis using assms(3) k v
    by (intro exI [of _ ?kvs]) (auto simp: multiRandKeyValues_def)
qed

theorem random_pairs_are_numbered_and_distinct_witness:
  "\<exists>kvs. multiRandKeyValues (\<lambda>j k. 0) ''foo'' ''bar'' 3 3 = Some (Returns kvs)
     \<and> length kvs = 3 \<and> distinct (map Key kvs)"
proof -
  have "\<forall>j. has_letters ((\<lambda>j k. 0) (j::nat))" by (simp add: has_letters_def idx_at_def)
  from random_pairs_are_numbered_and_distinct [OF this, of 3 3 "''foo''" "''bar''"] show ?thesis by auto
qed

end
