(* ===== verification/RateLimit.thy ===== *)
theory RateLimit
  imports GoTime
begin

text \<open>
  \<open>pkg/ratelimit\<close>: \<open>Check\<close> runs the token-bucket limiter's \<open>Wait\<close> in a goroutine and selects
  between the root context, the goroutine and a timeout of 5 ms. The limiter
  (\<open>golang.org/x/time/rate\<close>) is outside the model: what matters of it is whether its \<open>Wait\<close> was
  cancelled. The case that fires is an argument of \<open>Check\<close>; \<open>may_fire\<close> says which cases can.
  A second section follows the requests a limiter grants over time.
\<close>

section \<open>The limiter\<close>

record request_limiter =
  interval :: int
  minScale :: int
  lastRequest :: "int option"

definition NewRequestLimiter :: "int \<Rightarrow> request_limiter" where
  "NewRequestLimiter i = \<lparr>interval = i, minScale = millisecond, lastRequest = None\<rparr>"

definition OkMessage :: string where
  "OkMessage = ''OK''"

definition canceledMsg :: string where
  "canceledMsg = ''context canceled''"

definition RootContextCanceled :: string where
  "RootContextCanceled = ''root '' @ canceledMsg"

text \<open>\<open>WaitDone c\<close>: the goroutine closed its channel, \<open>c\<close> telling whether \<open>Wait\<close> returned
  \<open>context.Canceled\<close>. Its other errors leave \<open>c\<close> false.\<close>

datatype select_case = RootDone | WaitDone bool | After5ms

definition Check :: "request_limiter \<Rightarrow> select_case \<Rightarrow> int \<Rightarrow> (string \<times> bool) outcome" where
  "Check rl fired now =
     (case fired of
        RootDone \<Rightarrow> Returns (RootContextCanceled, False)
      | WaitDone canceled \<Rightarrow>
          if canceled then Returns (canceledMsg, False) else Returns (OkMessage, True)
      | After5ms \<Rightarrow>
          let took = since (lastRequest rl) now
          in if 0 < i64 (interval rl - took) then
               (case roundDownDuration (i64 (interval rl - took)) (minScale rl) of
                  Panics p \<Rightarrow> Panics p
                | Returns d \<Rightarrow>
                    Returns (''rate limit exceeded (try again after '' @ duration_string d @ '')'', False))
             else Returns (OkMessage, True))"

definition Advance :: "int \<Rightarrow> request_limiter \<Rightarrow> request_limiter" where
  "Advance now rl = rl\<lparr>lastRequest := Some now\<rparr>"

definition SetInterval :: "int \<Rightarrow> request_limiter \<Rightarrow> request_limiter" where
  "SetInterval i rl = rl\<lparr>interval := i\<rparr>"

text \<open>A \<open>select\<close> that starts at \<open>start\<close> and is scheduled at \<open>t\<close> takes any case that is ready by
  then: \<open>root\<close> is the time the root context is cancelled, \<open>wait\<close> the time the goroutine ends
  and whether it was cancelled.\<close>

definition may_fire :: "int \<Rightarrow> int option \<Rightarrow> (int \<times> bool) option \<Rightarrow> int \<Rightarrow> select_case \<Rightarrow> bool" where
  "may_fire start root wait t fired =
     (case fired of
        RootDone \<Rightarrow> (case root of None \<Rightarrow> False | Some r \<Rightarrow> r \<le> t)
      | WaitDone c \<Rightarrow> (case wait of None \<Rightarrow> False | Some (w, c') \<Rightarrow> w \<le> t \<and> c' = c)
      | After5ms \<Rightarrow> start + 5 * millisecond \<le> t)"

section \<open>The interface\<close>

text \<open>\<open>RequestLimiter\<close> is an interface of the package. What its clients rely on: \<open>Check\<close> does not
  panic on a limiter in use, and the message is \<open>OK\<close> exactly for a granted request.\<close>

locale request_limiter_laws =
  fixes usable :: "'l \<Rightarrow> bool"
    and check :: "'l \<Rightarrow> 'e \<Rightarrow> int \<Rightarrow> (string \<times> bool) outcome"
    and advance :: "int \<Rightarrow> 'l \<Rightarrow> 'l"
    and set_interval :: "int \<Rightarrow> 'l \<Rightarrow> 'l"
  assumes check_returns: "usable l \<Longrightarrow> \<exists>msg ok. check l e t = Returns (msg, ok)"
    and ok_message: "check l e t = Returns (msg, ok) \<Longrightarrow> ok \<longleftrightarrow> msg = OkMessage"
    and advance_usable: "usable l \<Longrightarrow> usable (advance t l)"
    and set_interval_usable: "usable l \<Longrightarrow> usable (set_interval i l)"
begin

text \<open>A request is served or rejected with a message of its own, never both or neither.\<close>

lemma granted_or_rejected:
  "usable l \<Longrightarrow> check l e t = Returns (OkMessage, True)
     \<or> (\<exists>msg. check l e t = Returns (msg, False) \<and> msg \<noteq> OkMessage)"
  using check_returns [of l e t] ok_message [of l e t] by (cases "check l e t") auto

lemma usable_after: "usable l \<Longrightarrow> check (advance t l) e t' \<noteq> Panics p"
  using check_returns [OF advance_usable, of l t e t'] by auto

end

definition usable_limiter :: "request_limiter \<Rightarrow> bool" where
  "usable_limiter rl = (0 < minScale rl)"

lemma Check_OK_iff: "Check rl fired t = Returns (msg, ok) \<Longrightarrow> ok \<longleftrightarrow> msg = OkMessage"
  by (auto simp: Check_def OkMessage_def RootContextCanceled_def canceledMsg_def Let_def
      split: select_case.splits if_splits outcome.splits)

interpretation limiter: request_limiter_laws usable_limiter Check Advance SetInterval
proof unfold_locales
  fix rl fired t
  show "usable_limiter rl \<Longrightarrow> \<exists>msg ok. Check rl fired t = Returns (msg, ok)"
    by (auto simp: Check_def usable_limiter_def roundDownDuration_def Let_def split: select_case.splits)
  show "Check rl fired t = Returns (msg, ok) \<Longrightarrow> ok \<longleftrightarrow> msg = OkMessage" for msg ok
    by (rule Check_OK_iff)
qed (simp_all add: usable_limiter_def Advance_def SetInterval_def)

lemma new_usable: "usable_limiter (NewRequestLimiter i)"
  by (simp add: usable_limiter_def NewRequestLimiter_def millisecond_def)

section \<open>The requests granted over time\<close>

text \<open>A handler calls \<open>Check\<close> and, when the request is granted, \<open>Advance\<close>; nothing is locked in
  between, so requests overlap there. \<open>in_flight\<close> counts those granted and not yet advanced, at
  most \<open>k\<close>. A grant is the time of the select and whether it came from the limiter's \<open>Wait\<close>.
  The limiter gives out tokens at least the interval \<open>I\<close> apart, and the select notices a token
  within \<open>D\<close>; \<open>tok\<close> is when the last one was given out.\<close>

type_synonym grant = "int \<times> bool"

record traffic =
  lim :: request_limiter
  tok :: "int option"
  time_now :: int
  in_flight :: nat
  grants :: "grant list"

definition no_traffic :: "int \<Rightarrow> int \<Rightarrow> traffic" where
  "no_traffic I t = \<lparr>lim = NewRequestLimiter I, tok = None, time_now = t, in_flight = 0, grants = []\<rparr>"

definition granted :: "int \<Rightarrow> bool \<Rightarrow> traffic \<Rightarrow> traffic" where
  "granted t by_token s = s\<lparr>time_now := t, in_flight := Suc (in_flight s), grants := (t, by_token) # grants s\<rparr>"

inductive traffic_step :: "nat \<Rightarrow> int \<Rightarrow> int \<Rightarrow> traffic \<Rightarrow> traffic \<Rightarrow> bool" for k D I where
  token: "time_now s \<le> t \<Longrightarrow> in_flight s < k \<Longrightarrow> Check (lim s) (WaitDone False) t = Returns (msg, True)
    \<Longrightarrow> (\<forall>a. tok s = Some a \<longrightarrow> a + I \<le> a') \<Longrightarrow> a' \<le> t \<Longrightarrow> t \<le> a' + D
    \<Longrightarrow> traffic_step k D I s ((granted t True s)\<lparr>tok := Some a'\<rparr>)"
| timeout: "time_now s \<le> t \<Longrightarrow> in_flight s < k \<Longrightarrow> Check (lim s) After5ms t = Returns (msg, True)
    \<Longrightarrow> traffic_step k D I s (granted t False s)"
| rejected: "time_now s \<le> t \<Longrightarrow> Check (lim s) fired t = Returns (msg, False)
    \<Longrightarrow> traffic_step k D I s (s\<lparr>time_now := t\<rparr>)"
| advance: "time_now s \<le> t \<Longrightarrow> in_flight s = Suc n
    \<Longrightarrow> traffic_step k D I s (s\<lparr>lim := Advance t (lim s), time_now := t, in_flight := n\<rparr>)"

definition in_window :: "int \<Rightarrow> int \<Rightarrow> bool \<Rightarrow> grant list \<Rightarrow> nat" where
  "in_window x l by_token gs = length (filter (\<lambda>g. snd g = by_token \<and> x \<le> fst g \<and> fst g < x + l) gs)"

lemma in_window_simps [simp]:
  "in_window x l w [] = 0"
  "in_window x l w ((t, v) # gs) = (if v = w \<and> x \<le> t \<and> t < x + l then 1 else 0) + in_window x l w gs"
  by (simp_all add: in_window_def)

lemma in_window_before: "\<forall>g\<in>set gs. fst g < x \<Longrightarrow> in_window x l w gs = 0"
  by (auto simp: in_window_def filter_empty_conv)

lemma in_window_total:
  "length (filter (\<lambda>g. x \<le> fst g \<and> fst g < x + l) gs) = in_window x l True gs + in_window x l False gs"
  by (induction gs) (auto simp: in_window_def)

lemma timeout_granted:
  assumes "Check rl After5ms t = Returns (msg, True)" "lastRequest rl = Some l" "l \<le> t"
    and "0 \<le> interval rl" "interval rl \<le> max_duration"
  shows "l + interval rl \<le> t"
proof (rule ccontr)
  assume "\<not> l + interval rl \<le> t"
  then have "since (lastRequest rl) t = t - l" using assms
    by (simp add: since_def min_duration_def max_duration_def)
  moreover have "i64 (interval rl - (t - l)) = interval rl - (t - l)"
    using assms \<open>\<not> l + interval rl \<le> t\<close> by (intro i64_id) (auto simp: max_duration_def)
  ultimately show False using assms(1) \<open>\<not> l + interval rl \<le> t\<close>
    by (auto simp: Check_def Let_def split: outcome.splits)
qed

text \<open>The tokens of a window are one at most. A timeout in it is only granted before the first
  \<open>Advance\<close> in it, so that all its timeouts are in flight then.\<close>

definition traffic_inv :: "nat \<Rightarrow> int \<Rightarrow> int \<Rightarrow> int \<Rightarrow> traffic \<Rightarrow> bool" where
  "traffic_inv k D I x s = (interval (lim s) = I \<and> in_flight s \<le> k
     \<and> (\<forall>g\<in>set (grants s). fst g \<le> time_now s) \<and> (\<forall>l. lastRequest (lim s) = Some l \<longrightarrow> l \<le> time_now s)
     \<and> (in_window x (I - D) True (grants s) = 0
        \<or> in_window x (I - D) True (grants s) = 1 \<and> (\<exists>a. tok s = Some a \<and> x \<le> a + D))
     \<and> (in_window x (I - D) False (grants s) \<le> in_flight s
        \<or> in_window x (I - D) False (grants s) \<le> k \<and> (\<exists>l. lastRequest (lim s) = Some l \<and> x \<le> l)))"

lemma traffic_inv_tokens:
  assumes "traffic_inv k D I x s" "\<forall>a. tok s = Some a \<longrightarrow> a + I \<le> a'" "a' \<le> t" "t \<le> a' + D" "0 \<le> I"
  shows "in_window x (I - D) True ((t, True) # grants s) = 0
    \<or> in_window x (I - D) True ((t, True) # grants s) = 1 \<and> x \<le> a' + D"
  using assms by (auto simp: traffic_inv_def)

lemma traffic_step_inv:
  assumes "traffic_step k D I s s'" "traffic_inv k D I x s" "0 \<le> D" "0 \<le> I" "I \<le> max_duration"
  shows "traffic_inv k D I x s'"
  using assms(1)
proof cases
  case (token t msg a')
  then show ?thesis using assms(2) traffic_inv_tokens [OF assms(2) token(5-7) assms(4)]
    by (fastforce simp: traffic_inv_def granted_def)
next
  case (timeout t msg)
  have "x + I \<le> t" if "lastRequest (lim s) = Some l" "x \<le> l" for l
    using timeout_granted [OF timeout(4) that(1)] timeout(2) that assms(2,4,5) by (fastforce simp: traffic_inv_def)
  then show ?thesis using timeout assms(2,3) by (fastforce simp: traffic_inv_def granted_def)
next
  case (rejected t fired msg)
  then show ?thesis using assms(2) by (fastforce simp: traffic_inv_def)
next
  case (advance t n)
  have old: "\<forall>g\<in>set (grants s). fst g \<le> t" using advance assms(2) by (fastforce simp: traffic_inv_def)
  have "in_window x (I - D) False (grants s) \<le> n
      \<or> in_window x (I - D) False (grants s) \<le> k \<and> x \<le> t"
  proof (cases "x \<le> t")
    case True
    then show ?thesis using assms(2) by (auto simp: traffic_inv_def)
  next
    case False
    then have "\<forall>g\<in>set (grants s). fst g < x" using old by fastforce
    then show ?thesis by (simp add: in_window_before)
  qed
  then show ?thesis using advance old assms(2) by (fastforce simp: traffic_inv_def Advance_def)
qed

lemma traffic_steps_inv:
  assumes "(traffic_step k D I)\<^sup>*\<^sup>* (no_traffic I t0) s" "0 \<le> D" "0 \<le> I" "I \<le> max_duration"
  shows "traffic_inv k D I x s"
  using assms(1)
proof induction
  case base
  show ?case by (simp add: traffic_inv_def no_traffic_def NewRequestLimiter_def)
qed (rule traffic_step_inv [OF _ _ assms(2-4)])

text \<open>As long as nothing has been advanced, every request that times out is granted.\<close>

lemma new_grants:
  "i64 (I - max_duration) \<le> 0 \<Longrightarrow> Check (NewRequestLimiter I) After5ms t = Returns (OkMessage, True)"
  by (simp add: Check_def NewRequestLimiter_def since_def)

lemma timeouts_pile_up:
  assumes "0 \<le> I" "I \<le> max_duration" "j \<le> k"
  shows "(traffic_step k D I)\<^sup>*\<^sup>* (no_traffic I t)
    ((no_traffic I t)\<lparr>in_flight := j, grants := replicate j (t, False)\<rparr>)"
  using assms(3)
proof (induction j)
  case 0
  have "(no_traffic I t)\<lparr>in_flight := 0, grants := []\<rparr> = no_traffic I t" by (simp add: no_traffic_def)
  then show ?case by simp
next
  case (Suc j)
  let ?s = "(no_traffic I t)\<lparr>in_flight := j, grants := replicate j (t, False)\<rparr>"
  have "i64 (I - max_duration) = I - max_duration"
    using assms by (intro i64_id) (simp_all add: max_duration_def)
  then have "Check (lim ?s) After5ms t = Returns (OkMessage, True)"
    using new_grants [of I t] assms by (simp add: no_traffic_def)
  then have "traffic_step k D I ?s (granted t False ?s)"
    using Suc.prems by (intro traffic_step.timeout) (auto simp: no_traffic_def)
  moreover have "granted t False ?s = (no_traffic I t)\<lparr>in_flight := Suc j, grants := replicate (Suc j) (t, False)\<rparr>"
    by (simp add: granted_def no_traffic_def)
  ultimately show ?case using Suc by (simp add: rtranclp.rtrancl_into_rtrancl)
qed

section \<open>Properties\<close>

text \<open>C10 (safety). Whatever the order in which requests are checked and advanced and whatever case
  fires, with at most \<open>k\<close> requests between \<open>Check\<close> and \<open>Advance\<close> at a time, any window shorter
  than the interval (less the delay \<open>D\<close> with which a token is noticed) sees at most \<open>k + 1\<close> grants:
  two when no requests overlap, where one was intended.\<close>

theorem grants_per_interval_bounded:
  assumes "(traffic_step k D I)\<^sup>*\<^sup>* (no_traffic I t0) s" "0 \<le> D" "0 \<le> I" "I \<le> max_duration"
  shows "length (filter (\<lambda>g. x \<le> fst g \<and> fst g < x + (I - D)) (grants s)) \<le> k + 1"
  unfolding in_window_total
  using traffic_steps_inv [OF assms, of x] by (auto simp: traffic_inv_def)

text \<open>The bound is reached: \<open>k\<close> requests time out before any of them is advanced, and the token is
  still there for another one after the first of them has been.\<close>

lemma bound_is_reached:
  assumes "0 \<le> I" "I \<le> max_duration" "0 < k" "0 \<le> D"
  shows "\<exists>s. (traffic_step k D I)\<^sup>*\<^sup>* (no_traffic I t) s \<and> grants s = (t, True) # replicate k (t, False)"
proof -
  let ?s = "(no_traffic I t)\<lparr>in_flight := k, grants := replicate k (t, False)\<rparr>"
  let ?u = "?s\<lparr>lim := Advance t (lim ?s), time_now := t, in_flight := k - 1\<rparr>"
  have "traffic_step k D I ?s ?u"
    by (rule traffic_step.advance) (use assms in \<open>simp_all add: no_traffic_def\<close>)
  moreover have "traffic_step k D I ?u ((granted t True ?u)\<lparr>tok := Some t\<rparr>)"
    by (rule traffic_step.token [of _ _ _ OkMessage])
      (use assms in \<open>simp_all add: no_traffic_def Advance_def Check_def\<close>)
  ultimately have "(traffic_step k D I)\<^sup>*\<^sup>* (no_traffic I t) ((granted t True ?u)\<lparr>tok := Some t\<rparr>)"
    using timeouts_pile_up [OF assms(1,2), of k k D t]
    by (meson order_refl rtranclp.rtrancl_into_rtrancl)
  then show ?thesis by (intro exI [of _ "(granted t True ?u)\<lparr>tok := Some t\<rparr>"]) (simp add: granted_def)
qed

theorem grants_per_interval_bounded_witness:
  "\<exists>s. (traffic_step 2 0 3000000000)\<^sup>*\<^sup>* (no_traffic 3000000000 10) s
     \<and> grants s = [(10, True), (10, False), (10, False)]
     \<and> length (filter (\<lambda>g. 0 \<le> fst g \<and> fst g < 3000000000) (grants s)) \<le> 3"
proof -
  obtain s where s: "(traffic_step 2 0 3000000000)\<^sup>*\<^sup>* (no_traffic 3000000000 10) s"
      "grants s = (10, True) # replicate 2 (10, False)"
    using bound_is_reached [of 3000000000 2 0 10] by (auto simp: max_duration_def)
  have "length (filter (\<lambda>g. 0 \<le> fst g \<and> fst g < 3000000000) (grants s)) \<le> 3"
    using grants_per_interval_bounded [OF s(1), of 0] by (simp add: max_duration_def)
  then show ?thesis using s by (auto simp: numeral_2_eq_2)
qed

text \<open>A request that times out before the interval has passed since the last
  \<open>Advance\<close> is rejected, and the time the message tells the client to wait is the remaining
  time rounded down to a whole number of milliseconds.\<close>

theorem rejection_tells_the_remaining_time:
  assumes "lastRequest rl = Some l" "l \<le> t" "t < l + interval rl"
    and "interval rl \<le> max_duration" "minScale rl = millisecond"
  shows "\<exists>d. Check rl After5ms t
       = Returns (''rate limit exceeded (try again after '' @ duration_string d @ '')'', False)
     \<and> d \<le> l + interval rl - t \<and> l + interval rl - t < d + millisecond \<and> millisecond dvd d"
proof -
  let ?r = "l + interval rl - t"
  have "since (lastRequest rl) t = t - l" using assms
    by (simp add: since_def min_duration_def max_duration_def)
  moreover have "i64 (interval rl - (t - l)) = ?r"
    using assms by (subst i64_id) (auto simp: max_duration_def)
  moreover have "roundDownDuration ?r millisecond = Returns (?r sdiv millisecond * millisecond)"
    using assms by (intro roundDownDuration_ok) (auto simp: millisecond_def max_duration_def min_duration_def)
  moreover have "?r sdiv millisecond * millisecond \<le> ?r \<and> ?r < ?r sdiv millisecond * millisecond + millisecond
      \<and> millisecond dvd ?r sdiv millisecond * millisecond"
    using sdiv_mult_bounds [of millisecond ?r] assms(3) by (auto simp: millisecond_def)
  ultimately show ?thesis using assms
    by (intro exI [of _ "?r sdiv millisecond * millisecond"]) (simp add: Check_def)
qed

theorem rejection_tells_the_remaining_time_witness:
  "\<exists>d. Check (Advance 0 (NewRequestLimiter 3000000000)) After5ms 1000000500
      = Returns (''rate limit exceeded (try again after '' @ duration_string d @ '')'', False)
     \<and> d \<le> 1999999500 \<and> 1999999500 < d + millisecond"
  using rejection_tells_the_remaining_time [of "Advance 0 (NewRequestLimiter 3000000000)" 0 1000000500]
  by (auto simp: Advance_def NewRequestLimiter_def max_duration_def)

text \<open>After the root context is cancelled the answer is not determined: as soon as the
  limiter's \<open>Wait\<close> has been cancelled with it, both \<open>RootContextCanceled\<close> and the plain
  \<open>context canceled\<close> are possible results, and within 5 ms there is no other.\<close>

theorem canceled_check_has_two_answers:
  assumes "r \<le> t" "w \<le> t" "t < start + 5 * millisecond"
  shows "{Check rl fired t | fired. may_fire start (Some r) (Some (w, True)) t fired}
     = {Returns (RootContextCanceled, False), Returns (canceledMsg, False)}"
proof -
  have "may_fire start (Some r) (Some (w, True)) t fired \<longleftrightarrow> fired = RootDone \<or> fired = WaitDone True" for fired
    using assms by (cases fired) (auto simp: may_fire_def)
  then have "{fired. may_fire start (Some r) (Some (w, True)) t fired} = {RootDone, WaitDone True}" by auto
  then have "{Check rl fired t | fired. may_fire start (Some r) (Some (w, True)) t fired}
      = (\<lambda>fired. Check rl fired t) ` {RootDone, WaitDone True}" by blast
  then show ?thesis by (simp add: Check_def)
qed

theorem canceled_check_has_two_answers_witness:
  "{Check (NewRequestLimiter 3000000000) fired 7 | fired. may_fire 0 (Some 5) (Some (6, True)) 7 fired}
     = {Returns (''root context canceled'', False), Returns (''context canceled'', False)}"
  using canceled_check_has_two_answers [of 5 7 6 0 "NewRequestLimiter 3000000000"]
  by (simp add: millisecond_def RootContextCanceled_def canceledMsg_def)

text \<open>\<open>roundDownDuration\<close> with a positive scale never panics or overflows: the result
  is a multiple of the scale on the same side of zero, never farther from zero than the
  duration, and less than one scale away from it. So a negative duration is rounded up.\<close>

theorem round_down_goes_towards_zero:
  assumes "0 < scale" "scale \<le> max_duration" "min_duration \<le> d" "d \<le> max_duration"
  shows "\<exists>q. roundDownDuration d scale = Returns q \<and> scale dvd q \<and> \<bar>q\<bar> \<le> \<bar>d\<bar> \<and> \<bar>d\<bar> - \<bar>q\<bar> < scale
     \<and> (0 \<le> d \<longrightarrow> 0 \<le> q \<and> q \<le> d) \<and> (d \<le> 0 \<longrightarrow> d \<le> q \<and> q \<le> 0)"
  using roundDownDuration_ok [OF assms] sdiv_mult_bounds [OF assms(1), of d] by auto

theorem round_down_goes_towards_zero_witness:
  "\<exists>q. roundDownDuration (- 1500000) millisecond = Returns q \<and> q = - 1000000"
  using round_down_goes_towards_zero [of millisecond "- 1500000"]
  by (auto simp: millisecond_def max_duration_def min_duration_def dvd_def)

end
