(* ===== verification/WebCache.thy ===== *)
theory WebCache
  imports WebId WebRand RateLimit ClusterOps
begin

text \<open>
  The state of \<open>backend/web\<close> (its package variables), the user cache with its clean-up, the
  handlers for \<open>/conn\<close> and \<open>/server-status\<close> of \<open>handler.go\<close>, and the adapter of \<open>context.go\<close>.

  A handler's reply is the value it passes to the JSON encoder, with the error the encoder
  returns, an argument, since it is that of the network. The visit counter
  (\<open>axiomhq/hyperloglog\<close>) is the sequence of what was inserted; its estimate is an argument.
\<close>

record web =
  userCache :: "string \<rightharpoonup> int"
  visits :: "string list"
  globalCluster :: "cluster option"
  webserverPort :: int
  clientRequestLimiter :: request_limiter
  stopRestartLimiter :: request_limiter

text \<open>What a handler did: it wrote a reply, and the write gave an error or not; it returned an
  error; it answered 405; it panicked.\<close>

datatype 'b handled = Replied 'b "go_error option" | Failed go_error | NotAllowed | Crashed string

section \<open>The cache\<close>

definition cache_timeout :: int where
  "cache_timeout = 15 * 60 * 1000000000"

text \<open>One round of \<open>cleanCache\<close>. \<open>now\<close> is when the user's entry is looked at. Deleting entries
  while ranging over the map leaves the others as they are.\<close>

definition clean_round :: "(string \<Rightarrow> int) \<Rightarrow> web \<Rightarrow> web" where
  "clean_round now w = w\<lparr>userCache := (\<lambda>k. case userCache w k of None \<Rightarrow> None
     | Some t \<Rightarrow> if since (Some t) (now k) > cache_timeout then None else Some t)\<rparr>"

text \<open>A list of the cached ids, each once, in the order in which a range over the map gives them.\<close>

definition enumerates :: "string list \<Rightarrow> web \<Rightarrow> bool" where
  "enumerates keys w = (distinct keys \<and> set keys = dom (userCache w))"

text \<open>One round of \<open>updateClusterStatus\<close>; \<open>keys\<close> enumerates the cache.\<close>

definition update_round :: "(nat \<Rightarrow> env) \<Rightarrow> nat list \<Rightarrow> string list \<Rightarrow> web \<Rightarrow> web outcome" where
  "update_round Es order keys w =
     (if keys = [] then Returns w
      else case globalCluster w of
        None \<Rightarrow> Panics nil_panic
      | Some clus \<Rightarrow> Returns (w\<lparr>globalCluster := Some (fst (UpdateMemberStatus Es order clus))\<rparr>))"

text \<open>\<open>withCache\<close>: the handler \<open>h\<close> it wraps gets the user id; \<open>crash\<close> makes the result of a panic.
  \<open>stamp\<close> is \<open>time.Now().String()\<close>.\<close>

definition withCache ::
  "(web \<Rightarrow> string \<Rightarrow> 'r) \<Rightarrow> (string \<Rightarrow> web \<Rightarrow> 'r) \<Rightarrow> string \<Rightarrow> int \<Rightarrow> request \<Rightarrow> web \<Rightarrow> 'r" where
  "withCache crash h stamp now req w =
     (case generateUserID req of
        Panics p \<Rightarrow> crash w p
      | Returns userID \<Rightarrow>
          (case slice stamp 0 13 of
             Panics p \<Rightarrow> crash w p
           | Returns hour \<Rightarrow>
               let w1 = w\<lparr>visits := visits w @ [userID @ hour]\<rparr>;
                   w2 = (case userCache w1 userID of
                           None \<Rightarrow> w1\<lparr>userCache := (userCache w1)(userID \<mapsto> now)\<rparr>
                         | Some t \<Rightarrow> w1)
               in h userID w2))"

section \<open>/conn\<close>

record Connect =
  WebPort :: int
  User :: string
  Deleted :: bool

definition connectHandler ::
  "go_error option \<Rightarrow> request \<Rightarrow> string \<Rightarrow> web \<Rightarrow> web \<times> Connect handled" where
  "connectHandler werr req userID w =
     (if Method req = ''GET'' then
        (w, Replied \<lparr>WebPort = webserverPort w, User = userID, Deleted = False\<rparr> werr)
      else if Method req = ''DELETE'' then
        (w\<lparr>userCache := (userCache w)(userID := None)\<rparr>,
         Replied \<lparr>WebPort = webserverPort w, User = userID, Deleted = True\<rparr> werr)
      else (w, NotAllowed))"

section \<open>/server-status\<close>

record ServerStatus =
  PlaygroundActive :: bool
  ServerUptime :: string
  ServerVisits :: u64
  UserN :: nat
  Users :: "string list"
  MemberStatuses :: "MemberStatus list"

text \<open>The loop of \<open>getUserIDs\<close>: \<open>keys\<close> are the cached ids in the order in which the range over
  the map gives them.\<close>

fun collect_ids :: "string list \<Rightarrow> string list \<Rightarrow> string list outcome" where
  "collect_ids [] s = Returns s"
| "collect_ids (k # keys) s =
     (case maskUserID k of
        Panics p \<Rightarrow> Panics p
      | Returns m \<Rightarrow> if length (s @ [m]) > 20 then Returns (s @ [m]) else collect_ids keys (s @ [m]))"

definition getUserIDs :: "string list \<Rightarrow> string list outcome" where
  "getUserIDs keys = (case collect_ids keys [] of Panics p \<Rightarrow> Panics p | Returns s \<Rightarrow> Returns (sort s))"

definition getUserIDsN :: "string list \<Rightarrow> nat" where
  "getUserIDsN keys = length keys"

text \<open>\<open>keys\<close> enumerates the cache; \<open>estimate\<close> is the counter's.\<close>

definition serverStatusHandler ::
  "go_error option \<Rightarrow> env \<Rightarrow> (string list \<Rightarrow> u64) \<Rightarrow> int \<Rightarrow> string list \<Rightarrow> request \<Rightarrow> string
     \<Rightarrow> web \<Rightarrow> web \<times> ServerStatus handled" where
  "serverStatusHandler werr E estimate now keys req userID w =
     (if Method req = ''GET'' then
        let active = userCache w userID \<noteq> None;
            w1 = (if active then w\<lparr>userCache := (userCache w)(userID \<mapsto> now)\<rparr> else w)
        in case globalCluster w1 of
             None \<Rightarrow> (w1, Crashed nil_panic)
           | Some clus \<Rightarrow>
               (case getUserIDs keys of
                  Panics p \<Rightarrow> (w1, Crashed p)
                | Returns ids \<Rightarrow>
                    (case AllMemberStatus clus of
                       Panics p \<Rightarrow> (w1, Crashed p)
                     | Returns sts \<Rightarrow>
                         (w1, Replied \<lparr>PlaygroundActive = active, ServerUptime = humanize_time E (Started clus),
                                ServerVisits = estimate (visits w1), UserN = getUserIDsN keys,
                                Users = ids, MemberStatuses = sts\<rparr> werr)))
      else (w, NotAllowed))"

section \<open>The adapter\<close>

text \<open>\<open>ContextAdapter.ServeHTTP\<close>: the handler runs; an error, its own or that of the write, is only
  logged. The result is the log line, if any.\<close>

definition serve_log :: "request \<Rightarrow> 'b handled \<Rightarrow> string option" where
  "serve_log req r =
     (case r of
        Replied b (Some e) \<Rightarrow> Some (''ServeHTTP ('' @ e @ '') [method: '' @ quote (Method req) @ '' | path: '' @ quote (Path req) @ '']'')
      | Failed e \<Rightarrow> Some (''ServeHTTP ('' @ e @ '') [method: '' @ quote (Method req) @ '' | path: '' @ quote (Path req) @ '']'')
      | _ \<Rightarrow> None)"

definition ServeHTTP ::
  "(request \<Rightarrow> web \<Rightarrow> web \<times> 'b handled) \<Rightarrow> request \<Rightarrow> web \<Rightarrow> web \<times> 'b handled \<times> string option" where
  "ServeHTTP h req w = (case h req w of (w', r) \<Rightarrow> (w', r, serve_log req r))"

section \<open>Lemmas\<close>

lemma collect_ids_eq:
  assumes "\<forall>k\<in>set keys. 9 \<le> length k" "length s \<le> 20"
  shows "collect_ids keys s = Returns (s @ map (\<lambda>k. case maskUserID k of Returns m \<Rightarrow> m | Panics p \<Rightarrow> [])
     (take (21 - length s) keys))"
  using assms
proof (induction keys arbitrary: s)
  case (Cons k keys)
  obtain m where m: "maskUserID k = Returns m" using Cons.prems by (auto simp: maskUserID_eq)
  show ?case
  proof (cases "length s = 20")
    case True
    then show ?thesis using m by simp
  next
    case False
    then have "21 - length s = Suc (21 - length (s @ [m]))" "length (s @ [m]) \<le> 20" using Cons.prems by auto
    then show ?thesis using m Cons by (auto simp del: length_append)
  qed
qed simp

end
