(* ===== verification/ClientRequest.thy ===== *)
theory ClientRequest
  imports WebCache
begin

text \<open>
  \<open>clientRequestHandler\<close> of \<open>backend/web/handler.go\<close>: rate limit, decode, escape, find the
  member, then one of six actions. \<open>req_world\<close> is what the handler meets outside itself in
  one request. The handler returns \<open>None\<close> if it never returns (random bytes without letters).
\<close>

record ClientRequest =
  Action :: string
  RangePrefix :: bool
  ReqEndpoints :: "string list"
  ReqKeyValue :: KeyValue

record ClientResponse =
  RespRequest :: ClientRequest
  Success :: bool
  Result :: string
  ResultLines :: "string list"
  KeyValues :: "KeyValue list"

definition zero_request :: ClientRequest where
  "zero_request = \<lparr>Action = [], RangePrefix = False, ReqEndpoints = [],
     ReqKeyValue = \<lparr>Key = [], Value = []\<rparr>\<rparr>"

text \<open>\<open>ClientResponse{Success: true}\<close>\<close>

definition new_response :: ClientResponse where
  "new_response = \<lparr>RespRequest = zero_request, Success = True, Result = [], ResultLines = [],
     KeyValues = []\<rparr>"

definition ErrNoEndpoint :: string where
  "ErrNoEndpoint = ''no endpoint is given''"

text \<open>The cases and times of the two limiters; the decoded body; the answers of \<open>Put\<close>, \<open>Delete\<close>
  and \<open>Get\<close>, where a failed call may give no response; the sources of the random pairs; the time since
  the request started, by reading; the error of the write.\<close>

record req_world =
  check_case :: select_case
  check_at :: int
  advance_at :: int
  check2_case :: select_case
  check2_at :: int
  advance2_at :: int
  body :: "go_error + ClientRequest"
  put :: "nat \<Rightarrow> string \<Rightarrow> string \<Rightarrow> go_error option"
  delete_rpc :: "string \<Rightarrow> bool \<Rightarrow> KeyValue list option \<times> go_error option"
  get_rpc :: "string \<Rightarrow> bool \<Rightarrow> KeyValue list option \<times> go_error option"
  sources :: "nat \<Rightarrow> nat \<Rightarrow> nat"
  elapsed :: "nat \<Rightarrow> int"
  write_err :: "go_error option"
  cenv :: env

text \<open>\<open>Success\<close> false, \<open>Result\<close> the message, \<open>ResultLines\<close> only the message.\<close>

definition reject :: "string \<Rightarrow> ClientResponse \<Rightarrow> ClientResponse" where
  "reject msg cresp = cresp\<lparr>Success := False, Result := msg, ResultLines := [msg]\<rparr>"

text \<open>\<open>(took %v)\<close>, rounded to milliseconds.\<close>

definition took :: "req_world \<Rightarrow> nat \<Rightarrow> string" where
  "took rw k = '' (took '' @ (case roundDownDuration (elapsed rw k) millisecond of
     Returns d \<Rightarrow> duration_string d | Panics p \<Rightarrow> []) @ '')''"

definition shorten :: "string \<Rightarrow> string" where
  "shorten s = (if length s > 7 then take 7 s @ ''...'' else s)"

definition result_line :: "string \<Rightarrow> string \<Rightarrow> string \<Rightarrow> string" where
  "result_line action k v = action @ '' success (key: '' @ k @ '', value: '' @ v @ '')''"

definition short_line :: "string \<Rightarrow> KeyValue \<Rightarrow> string" where
  "short_line action kv = result_line action (shorten (Key kv)) (shorten (Value kv))"

definition full_line :: "string \<Rightarrow> KeyValue \<Rightarrow> string" where
  "full_line action kv = result_line action (Key kv) (Value kv)"

text \<open>What is common to the four actions that use a client: it is made, and the client error
  rejected.\<close>

definition with_client ::
  "req_world \<Rightarrow> cluster \<Rightarrow> ClientRequest \<Rightarrow> ClientResponse \<Rightarrow> ClientResponse handled \<Rightarrow> ClientResponse handled" where
  "with_client rw clus creq cresp rest =
     (case Cluster_Client (cenv rw) clus (ReqEndpoints creq) of
        Panics p \<Rightarrow> Crashed p
      | Returns (cli, tls, Some e) \<Rightarrow>
          Replied (reject (''client error '' @ e @ took rw 0) cresp) (write_err rw)
      | Returns (cli, tls, None) \<Rightarrow> rest)"

text \<open>A word in single quotes.\<close>

definition quoted :: "string \<Rightarrow> string" where
  "quoted s = CHR 0x27 # s @ [CHR 0x27]"

section \<open>The actions on keys\<close>

definition write_action ::
  "req_world \<Rightarrow> cluster \<Rightarrow> ClientRequest \<Rightarrow> ClientResponse \<Rightarrow> ClientResponse handled" where
  "write_action rw clus creq cresp =
     (if Key (ReqKeyValue creq) = [] then
        Replied (reject (quoted ''write'' @ '' request got empty key'') cresp) (write_err rw)
      else with_client rw clus creq cresp
        (let kv = ReqKeyValue creq; cresp1 = cresp\<lparr>KeyValues := [kv]\<rparr>
         in case put rw 0 (Key kv) (Value kv) of
              Some e \<Rightarrow> Replied (reject e cresp1) (write_err rw)
            | None \<Rightarrow> Replied (cresp1\<lparr>Success := True,
                         Result := quoted ''write'' @ '' success'' @ took rw 0,
                         ResultLines := [short_line (quoted ''write'') kv]\<rparr>) (write_err rw)))"

text \<open>\<open>Put\<close> for each pair; the first error ends the loop.\<close>

fun put_all :: "req_world \<Rightarrow> nat \<Rightarrow> KeyValue list \<Rightarrow> go_error option" where
  "put_all rw i [] = None"
| "put_all rw i (kv # kvs) =
     (case put rw i (Key kv) (Value kv) of Some e \<Rightarrow> Some e | None \<Rightarrow> put_all rw (Suc i) kvs)"

text \<open>The success lines are made for indices 0 to 2.\<close>

fun stress_lines :: "nat \<Rightarrow> KeyValue list \<Rightarrow> string list outcome" where
  "stress_lines 0 kvs = Returns []"
| "stress_lines (Suc n) [] = Panics index_panic"
| "stress_lines (Suc n) (kv # kvs) =
     (case stress_lines n kvs of
        Panics p \<Rightarrow> Panics p | Returns ls \<Rightarrow> Returns (short_line (quoted ''stress'') kv # ls))"

definition stress_action ::
  "req_world \<Rightarrow> cluster \<Rightarrow> ClientRequest \<Rightarrow> ClientResponse \<Rightarrow> ClientResponse handled option" where
  "stress_action rw clus creq cresp =
     (case with_client rw clus creq cresp NotAllowed of
        NotAllowed \<Rightarrow>
          (case multiRandKeyValues (sources rw) ''foo'' ''bar'' 3 3 of
             None \<Rightarrow> None
           | Some (Panics p) \<Rightarrow> Some (Crashed p)
           | Some (Returns kvs) \<Rightarrow>
               let cresp1 = cresp\<lparr>KeyValues := kvs\<rparr>
               in (case put_all rw 0 kvs of
                     Some e \<Rightarrow> Some (Replied (reject (''client error '' @ e @ took rw 0) cresp1) (write_err rw))
                   | None \<Rightarrow>
                       (case stress_lines 3 kvs of
                          Panics p \<Rightarrow> Some (Crashed p)
                        | Returns ls \<Rightarrow>
                            Some (Replied (cresp1\<lparr>Result := quoted ''stress'' @ '' success'' @ took rw 0,
                                    ResultLines := ls\<rparr>) (write_err rw)))))
      | r \<Rightarrow> Some r)"

definition delete_action ::
  "req_world \<Rightarrow> cluster \<Rightarrow> ClientRequest \<Rightarrow> ClientResponse \<Rightarrow> ClientResponse handled" where
  "delete_action rw clus creq cresp =
     (if Key (ReqKeyValue creq) = [] then
        Replied (reject (quoted ''delete'' @ '' request got empty key'') cresp) (write_err rw)
      else with_client rw clus creq cresp
        (case delete_rpc rw (Key (ReqKeyValue creq)) (RangePrefix creq) of
           (dresp, err) \<Rightarrow>
             let cresp1 = (case err of None \<Rightarrow> cresp | Some e \<Rightarrow> cresp\<lparr>Success := False, Result := e\<rparr>)
             in (case dresp of
                   None \<Rightarrow> Crashed nil_panic
                 | Some kvs \<Rightarrow>
                     let cresp2 = cresp1\<lparr>KeyValues := kvs\<rparr>
                     in Replied (if Success cresp2
                          then cresp2\<lparr>Result := quoted ''delete'' @ '' success'' @ took rw 0,
                                 ResultLines := map (full_line (quoted ''delete'')) kvs\<rparr>
                          else cresp2) (write_err rw))))"

definition get_action ::
  "req_world \<Rightarrow> cluster \<Rightarrow> ClientRequest \<Rightarrow> ClientResponse \<Rightarrow> ClientResponse handled" where
  "get_action rw clus creq cresp =
     (if Key (ReqKeyValue creq) = [] then
        Replied (reject (quoted ''get'' @ '' request got empty key'') cresp) (write_err rw)
      else with_client rw clus creq cresp
        (case get_rpc rw (Key (ReqKeyValue creq)) (RangePrefix creq) of
           (gresp, err) \<Rightarrow>
             let cresp1 = (case err of None \<Rightarrow> cresp
                   | Some e \<Rightarrow> reject (''client error '' @ e @ took rw 0) cresp)
             in (case gresp of
                   None \<Rightarrow> Crashed nil_panic
                 | Some kvs \<Rightarrow>
                     let cresp2 = cresp1\<lparr>KeyValues := kvs\<rparr>
                     in Replied (if err = None
                          then cresp2\<lparr>Result := quoted ''get'' @ '' success'' @ took rw 0,
                                 ResultLines := (if kvs = []
                                   then [''key '' @ quote (Key (ReqKeyValue creq)) @ '' does not exist'']
                                   else map (full_line (quoted ''get'')) kvs)\<rparr>
                          else cresp2) (write_err rw))))"

section \<open>The actions on members\<close>

text \<open>The limiter of the stop and restart actions: a rejection is the reply, otherwise it is
  advanced.\<close>

definition stop_restart_limit ::
  "string \<Rightarrow> req_world \<Rightarrow> ClientResponse \<Rightarrow> web \<Rightarrow> ClientResponse handled + web" where
  "stop_restart_limit name rw cresp w =
     (case Check (stopRestartLimiter w) (check2_case rw) (check2_at rw) of
        Panics p \<Rightarrow> Inl (Crashed p)
      | Returns (rmsg, ok) \<Rightarrow>
          if ok then Inr (w\<lparr>stopRestartLimiter := Advance (advance2_at rw) (stopRestartLimiter w)\<rparr>)
          else Inl (Replied (reject (quoted name @ '' request '' @ rmsg) cresp) (write_err rw)))"

definition stop_action ::
  "req_world \<Rightarrow> cluster \<Rightarrow> int \<Rightarrow> ClientResponse \<Rightarrow> web \<Rightarrow> web \<times> event list \<times> ClientResponse handled" where
  "stop_action rw clus idx cresp w =
     (case stop_restart_limit ''stop-node'' rw cresp w of
        Inl r \<Rightarrow> (w, [], r)
      | Inr w1 \<Rightarrow>
          if ActiveNodeN clus < Quorum clus then
            (w1, [], Replied (reject (quoted ''stop-node'' @ '' request rejected (already quorum lost!)'') cresp) (write_err rw))
          else (case (Cluster_MemberStatus clus idx, IsStopped clus idx) of
            (Returns st, Returns stopped) \<Rightarrow>
              if stopped then
                (w1, [], Replied (reject (Name st @ '' is already stopped'' @ took rw 0) cresp) (write_err rw))
              else (case Cluster_Stop (cenv rw) idx clus of
                (clus', evs, Panics p) \<Rightarrow> (w1\<lparr>globalCluster := Some clus'\<rparr>, evs, Crashed p)
              | (clus', evs, Returns u) \<Rightarrow>
                  (case Cluster_MemberStatus clus' idx of
                     Panics p \<Rightarrow> (w1\<lparr>globalCluster := Some clus'\<rparr>, evs, Crashed p)
                   | Returns st' \<Rightarrow>
                       let msg = ''stopped '' @ Name st' @ took rw 0
                       in (w1\<lparr>globalCluster := Some clus'\<rparr>, evs,
                           Replied (cresp\<lparr>Result := msg, ResultLines := [msg]\<rparr>) (write_err rw))))
          | _ \<Rightarrow> (w1, [], Crashed index_panic)))"

definition restart_action ::
  "req_world \<Rightarrow> cluster \<Rightarrow> int \<Rightarrow> ClientResponse \<Rightarrow> web \<Rightarrow> web \<times> event list \<times> ClientResponse handled" where
  "restart_action rw clus idx cresp w =
     (case stop_restart_limit ''restart-node'' rw cresp w of
        Inl r \<Rightarrow> (w, [], r)
      | Inr w1 \<Rightarrow>
          (case (Cluster_MemberStatus clus idx, IsStopped clus idx) of
             (Returns st, Returns stopped) \<Rightarrow>
               if \<not> stopped then
                 (w1, [], Replied (reject (Name st @ '' is already started'' @ took rw 0) cresp) (write_err rw))
               else (case Cluster_Restart (cenv rw) idx clus of
                 (clus', evs, Panics p) \<Rightarrow> (w1\<lparr>globalCluster := Some clus'\<rparr>, evs, Crashed p)
               | (clus', evs, Returns (Some e)) \<Rightarrow>
                   (w1\<lparr>globalCluster := Some clus'\<rparr>, evs, Replied (reject e cresp) (write_err rw))
               | (clus', evs, Returns None) \<Rightarrow>
                   (case Cluster_MemberStatus clus' idx of
                      Panics p \<Rightarrow> (w1\<lparr>globalCluster := Some clus'\<rparr>, evs, Crashed p)
                    | Returns st' \<Rightarrow>
                        let msg = ''restarted '' @ Name st' @ took rw 0
                        in (w1\<lparr>globalCluster := Some clus'\<rparr>, evs,
                            Replied (cresp\<lparr>Success := True, Result := msg, ResultLines := [msg]\<rparr>) (write_err rw))))
           | _ \<Rightarrow> (w1, [], Crashed index_panic)))"

section \<open>The handler\<close>

definition escape_request :: "ClientRequest \<Rightarrow> ClientRequest" where
  "escape_request creq = creq\<lparr>ReqKeyValue :=
     \<lparr>Key = (if Key (ReqKeyValue creq) \<noteq> [] then html_escape (Key (ReqKeyValue creq)) else Key (ReqKeyValue creq)),
      Value = (if Value (ReqKeyValue creq) \<noteq> [] then html_escape (Value (ReqKeyValue creq)) else Value (ReqKeyValue creq))\<rparr>\<rparr>"

text \<open>\<open>%v\<close> of a slice of strings.\<close>

definition show_strings :: "string list \<Rightarrow> string" where
  "show_strings ss = ''['' @ join ss '' '' @ '']''"

text \<open>The switch over the action.\<close>

definition dispatch ::
  "req_world \<Rightarrow> cluster \<Rightarrow> int \<Rightarrow> ClientRequest \<Rightarrow> ClientResponse \<Rightarrow> web
     \<Rightarrow> (web \<times> event list \<times> ClientResponse handled) option" where
  "dispatch rw clus idx creq cresp w =
     (if Action creq = ''write'' then Some (w, [], write_action rw clus creq cresp)
      else if Action creq = ''stress'' then
        map_option (\<lambda>r. (w, [], r)) (stress_action rw clus creq cresp)
      else if Action creq = ''delete'' then Some (w, [], delete_action rw clus creq cresp)
      else if Action creq = ''get'' then Some (w, [], get_action rw clus creq cresp)
      else if Action creq = ''stop-node'' then Some (stop_action rw clus idx cresp w)
      else if Action creq = ''restart-node'' then Some (restart_action rw clus idx cresp w)
      else Some (w, [], Failed (''unknown action '' @ quote (Action creq))))"

definition clientRequestHandler ::
  "req_world \<Rightarrow> request \<Rightarrow> web \<Rightarrow> (web \<times> event list \<times> ClientResponse handled) option" where
  "clientRequestHandler rw req w =
     (if Method req \<noteq> ''POST'' then Some (w, [], NotAllowed)
      else case Check (clientRequestLimiter w) (check_case rw) (check_at rw) of
        Panics p \<Rightarrow> Some (w, [], Crashed p)
      | Returns (rmsg, ok) \<Rightarrow>
          if \<not> ok then
            Some (w, [], Replied (reject (''client request '' @ rmsg) new_response) (write_err rw))
          else
            let w1 = w\<lparr>clientRequestLimiter := Advance (advance_at rw) (clientRequestLimiter w)\<rparr>
            in case body rw of
                 Inl e \<Rightarrow> Some (w1, [], Replied (reject e new_response) (write_err rw))
               | Inr creq0 \<Rightarrow>
                   let creq = escape_request creq0; cresp = new_response\<lparr>RespRequest := creq\<rparr>
                   in case ReqEndpoints creq of
                        [] \<Rightarrow> Some (w1, [], Replied (reject ErrNoEndpoint cresp) (write_err rw))
                      | ep # eps \<Rightarrow>
                          (case globalCluster w1 of
                             None \<Rightarrow> Some (w1, [], Crashed nil_panic)
                           | Some clus \<Rightarrow>
                               let idx = FindIndex clus ep
                               in if idx = - 1 then
                                    Some (w1, [], Replied (reject (''wrong endpoints are given ('' @ show_strings (ReqEndpoints creq) @ '')'') cresp) (write_err rw))
                                  else dispatch rw clus idx creq cresp w1))"

end
