(* ===== verification/Server.thy ===== *)
theory Server
  imports ClientRequest
begin

text \<open>
  \<open>backend/web/server.go\<close> and \<open>cmd/backend-web-server/main.go\<close>: starting the cluster and the
  server, the four routes, stopping, and the main function.
\<close>

section \<open>Serving a request\<close>

datatype response_body = TextBody string | ConnectBody Connect | StatusBody ServerStatus
  | ClientBody ClientResponse

fun map_handled :: "('a \<Rightarrow> 'b) \<Rightarrow> 'a handled \<Rightarrow> 'b handled" where
  "map_handled f (Replied x e) = Replied (f x) e"
| "map_handled f (Failed e) = Failed e"
| "map_handled f NotAllowed = NotAllowed"
| "map_handled f (Crashed p) = Crashed p"

text \<open>What a request meets: the times and the time stamp of \<open>withCache\<close> and of the status
  handler, an enumeration of the cache as it is when the status handler reads it, the visit
  estimate, and the world of the client request handler.\<close>

record serve_world =
  stamp :: string
  now_at :: int
  keys_of :: "web \<Rightarrow> string list"
  estimate_of :: "string list \<Rightarrow> u64"
  req_of :: req_world

text \<open>The handlers the mux is given, by pattern; other paths are not found.\<close>

datatype served = NotFound | Served "response_body handled"

definition serve ::
  "serve_world \<Rightarrow> request \<Rightarrow> web \<Rightarrow> (web \<times> event list \<times> served) option" where
  "serve sw req w =
     (let crash = (\<lambda>w p. Some (w, [], Served (Crashed p)));
          cached = (\<lambda>h. withCache crash h (stamp sw) (now_at sw) req w)
      in if Path req = ''/health'' then Some (w, [], Served (Replied (TextBody ''OK'') None))
         else if Path req = ''/conn'' then
           cached (\<lambda>userID w. case connectHandler (write_err (req_of sw)) req userID w of
             (w', r) \<Rightarrow> Some (w', [], Served (map_handled ConnectBody r)))
         else if Path req = ''/server-status'' then
           cached (\<lambda>userID w. case serverStatusHandler (write_err (req_of sw)) (cenv (req_of sw)) (estimate_of sw)
               (now_at sw) (keys_of sw w) req userID w of
             (w', r) \<Rightarrow> Some (w', [], Served (map_handled StatusBody r)))
         else if Path req = ''/client-request'' then
           cached (\<lambda>userID w. map_option (\<lambda>(w', evs, r). (w', evs, Served (map_handled ClientBody r)))
             (clientRequestHandler (req_of sw) req w))
         else Some (w, [], NotFound))"

section \<open>Starting\<close>

record globals =
  rootPort :: int
  web_of :: web

definition clientRequestIntervalLimit :: int where
  "clientRequestIntervalLimit = 3 * 1000000000"

definition stopRestartIntervalLimit :: int where
  "stopRestartIntervalLimit = 5 * 1000000000"

text \<open>The configuration \<open>startCluster\<close> makes.\<close>

definition cluster_config :: "string \<Rightarrow> int \<Rightarrow> config" where
  "cluster_config dir port = \<lparr>Config_Size = 5, RootDir = dir, RootPort = port, EmbeddedClient = True,
     PeerTLSInfo = \<lparr>CertFile = [], KeyFile = []\<rparr>, PeerAutoTLS = False,
     ClientTLSInfo = \<lparr>CertFile = [], KeyFile = []\<rparr>, ClientAutoTLS = False, DialTimeout = 0\<rparr>"

text \<open>The outside of a cluster start: the worlds and completion orders of \<open>Cluster_Start\<close> and
  what \<open>ioutil.TempDir\<close> returns.\<close>

record start_world =
  start_env :: env
  start_envs :: "nat \<Rightarrow> env"
  start_leads :: "nat \<Rightarrow> lead_world"
  start_order :: "nat list"
  wait_order :: "nat list"
  temp_dir :: "go_error + string"

definition startCluster ::
  "start_world \<Rightarrow> globals \<Rightarrow> (globals \<times> cluster option \<times> event list \<times> go_error option outcome) option" where
  "startCluster st g =
     (let port = rootPort g; g1 = g\<lparr>rootPort := rootPort g + 10\<rparr>
      in case temp_dir st of
           Inl e \<Rightarrow> Some (g1, None, [], Returns (Some e))
         | Inr dir \<Rightarrow>
             map_option (\<lambda>(clus, evs, r). (g1, clus, evs, r))
               (Cluster_Start (start_env st) (start_envs st) (start_leads st) (start_order st) (wait_order st)
                  (cluster_config dir port)))"

record server =
  addrURL :: url
  httpServer :: bool
  srvLocked :: bool
  srvStopped :: bool
  srvDone :: bool

definition StartServer ::
  "start_world \<Rightarrow> int \<Rightarrow> globals \<Rightarrow> (globals \<times> event list \<times> (go_error + server) outcome) option" where
  "StartServer st port g =
     (let g1 = g\<lparr>web_of := (web_of g)\<lparr>webserverPort := port\<rparr>\<rparr>
      in case startCluster st g1 of
           None \<Rightarrow> None
         | Some (g2, c, evs, Panics p) \<Rightarrow> Some (g2, evs, Panics p)
         | Some (g2, c, evs, Returns (Some e)) \<Rightarrow> Some (g2, evs, Returns (Inl e))
         | Some (g2, c, evs, Returns None) \<Rightarrow>
             Some (g2\<lparr>web_of := (web_of g2)\<lparr>globalCluster := c,
                        clientRequestLimiter := NewRequestLimiter clientRequestIntervalLimit,
                        stopRestartLimiter := NewRequestLimiter stopRestartIntervalLimit\<rparr>\<rparr>,
                   evs,
                   Returns (Inr \<lparr>addrURL = \<lparr>Scheme = ''http'', Host = ''localhost:'' @ dec_int port\<rparr>,
                     httpServer = True, srvLocked = False, srvStopped = False, srvDone = False\<rparr>)))"

section \<open>Stopping\<close>

definition ErrServerClosed :: go_error where
  "ErrServerClosed = ''http: Server closed''"

definition rootCancel :: "globals \<Rightarrow> globals" where
  "rootCancel g = g\<lparr>web_of := (web_of g)\<lparr>globalCluster :=
     map_option (\<lambda>clus. clus\<lparr>rootCanceled := True\<rparr>) (globalCluster (web_of g))\<rparr>\<rparr>"

text \<open>The end of the goroutine that serves, when \<open>ListenAndServe\<close> has returned \<open>err\<close>: another error
  than that of a closed server ends the process (\<open>None\<close>); otherwise it cancels the root context
  and closes \<open>donec\<close>.\<close>

definition serve_goroutine :: "go_error option \<Rightarrow> server \<Rightarrow> globals \<Rightarrow> (server \<times> globals) option" where
  "serve_goroutine err s g =
     (if err \<noteq> None \<and> err \<noteq> Some ErrServerClosed then None else Some (s\<lparr>srvDone := True\<rparr>, rootCancel g))"

text \<open>\<open>Server.Stop\<close>. The mutex is released by hand, so a panic leaves it locked; locking it again
  blocks for ever, which is \<open>None\<close>. Closing the HTTP server makes \<open>ListenAndServe\<close> return
  \<open>ErrServerClosed\<close>, and \<open>Stop\<close> waits for the goroutine.\<close>

definition Server_Stop ::
  "(nat \<Rightarrow> env) \<Rightarrow> nat list \<Rightarrow> server \<Rightarrow> globals \<Rightarrow> (server \<times> globals \<times> event list \<times> unit outcome) option" where
  "Server_Stop Es order s g =
     (if srvLocked s then None
      else if \<not> httpServer s then Some (s, g, [], Returns ())
      else if srvStopped s then Some (s\<lparr>srvLocked := True\<rparr>, g, [], Panics closed_panic)
      else
        case serve_goroutine (Some ErrServerClosed) (s\<lparr>srvStopped := True\<rparr>) g of
          None \<Rightarrow> None
        | Some (s1, g1) \<Rightarrow>
            (case globalCluster (web_of g1) of
               None \<Rightarrow> Some (s1, g1, [], Panics nil_panic)
             | Some clus \<Rightarrow>
                 (case Cluster_Shutdown Es order clus of
                    (clus', evs, Panics p) \<Rightarrow>
                      Some (s1, g1\<lparr>web_of := (web_of g1)\<lparr>globalCluster := Some clus'\<rparr>\<rparr>, evs, Panics p)
                  | (clus', evs, Returns u) \<Rightarrow>
                      Some (s1, g1\<lparr>web_of := (web_of g1)\<lparr>globalCluster := None\<rparr>\<rparr>, evs, Returns ()))))"

text \<open>\<open>StopNotify\<close>: whether a receive from the returned channel goes on.\<close>

definition Server_StopNotify :: "server \<Rightarrow> bool" where
  "Server_StopNotify s = srvStopped s"

section \<open>main\<close>

text \<open>\<open>main\<close> waits for a signal or for the server's stop notification, whose channel somebody else
  closed by calling \<open>Stop\<close>; both times the deferred \<open>Stop\<close> runs at the end. \<open>between\<close> is what the
  server and the globals have become while it waited.\<close>

definition main_wait :: "bool \<Rightarrow> server \<Rightarrow> bool" where
  "main_wait signal s = (signal \<or> Server_StopNotify s)"

definition main_run ::
  "start_world \<Rightarrow> int \<Rightarrow> (server \<Rightarrow> globals \<Rightarrow> server \<times> globals) \<Rightarrow> bool \<Rightarrow> (nat \<Rightarrow> env) \<Rightarrow> nat list
     \<Rightarrow> globals \<Rightarrow> (globals \<times> unit outcome) option" where
  "main_run st webPort between signal Es order g =
     (case StartServer st webPort g of
        None \<Rightarrow> None
      | Some (g1, evs, Panics p) \<Rightarrow> Some (g1, Panics p)
      | Some (g1, evs, Returns (Inl e)) \<Rightarrow> Some (g1, Panics e)
      | Some (g1, evs, Returns (Inr s)) \<Rightarrow>
          (case between s g1 of (s2, g2) \<Rightarrow>
             if main_wait signal s2 then
               (case Server_Stop Es order s2 g2 of
                  None \<Rightarrow> None | Some (s3, g3, evs', r) \<Rightarrow> Some (g3, r))
             else None))"

end
