(* ===== verification/WebInv.thy ===== *)
theory WebInv
  imports Server ClusterElect
begin

text \<open>
  The states of a serving process: \<open>StartServer\<close> has returned, and then requests are served and
  the two background loops take their rounds, in any order. The invariant \<open>web_inv\<close> says that the
  cluster is there, satisfies its own invariant and has a server for every member, that the
  limiters are usable, and that every cached user id can be masked.
\<close>

section \<open>Members keep their servers\<close>

definition keeps_srv :: "member \<Rightarrow> member \<Rightarrow> bool" where
  "keeps_srv m m' = (srv m \<noteq> None \<longrightarrow> srv m' \<noteq> None)"

definition all_srv :: "cluster \<Rightarrow> bool" where
  "all_srv clus = (\<forall>m\<in>set (Members clus). srv m \<noteq> None)"

lemma FetchMemberStatus_srv: "srv (fst (FetchMemberStatus E clus m)) = srv m"
  by (auto simp: FetchMemberStatus_def split: outcome.splits option.splits list.splits sum.splits)

lemma status_loop_srv: "status_loop w ids m t = Some q \<Longrightarrow> srv (fst q) = srv m"
  using status_loop_result [of w ids m t q]
  by (auto simp: led_by_def has_leader_def split: if_splits)

lemma Member_WaitForLeader_srv:
  assumes "Member_WaitForLeader E w clus m = Some r" shows "srv (fst r) = srv m"
  using assms unfolding Member_WaitForLeader_def
  by (auto split: if_splits option.splits outcome.splits) (metis status_loop_srv fst_conv)

interpretation fetch_srv: member_method keeps_srv "\<lambda>i. FetchMemberStatus (Es i) clus"
  for Es clus
  by unfold_locales (auto simp: keeps_srv_def FetchMemberStatus_srv)

interpretation wait_srv: waiting_method keeps_srv "\<lambda>i. Member_WaitForLeader (Es i) (ws i) clus"
  for Es ws clus
  by unfold_locales (auto simp: keeps_srv_def Member_WaitForLeader_srv)

lemma keeps_srv_all:
  "list_all2 keeps_srv ms ms' \<Longrightarrow> \<forall>m\<in>set ms. srv m \<noteq> None \<Longrightarrow> \<forall>m\<in>set ms'. srv m \<noteq> None"
  by (simp add: list_all2_conv_all_nth keeps_srv_def all_set_conv_all_nth)

lemma all_srv_set_member:
  "all_srv clus \<Longrightarrow> srv m \<noteq> None \<Longrightarrow> all_srv (set_member i m clus)"
  by (auto simp: all_srv_def set_member_def dest!: set_update_subset_insert [THEN subsetD])

lemma all_srv_at: "all_srv clus \<Longrightarrow> member_at clus i = Some m \<Longrightarrow> srv m \<noteq> None"
  by (auto simp: all_srv_def dest!: member_atD)

lemma Cluster_Stop_srv: "all_srv clus \<Longrightarrow> all_srv (fst (Cluster_Stop E i clus))"
  by (auto simp: Cluster_Stop_def Member_Stop_def all_srv_at split: option.splits
      intro!: all_srv_set_member)

lemma Cluster_Restart_srv: "all_srv clus \<Longrightarrow> all_srv (fst (Cluster_Restart E i clus))"
  by (auto simp: Cluster_Restart_def Member_Restart_def Let_def all_srv_at
      split: option.splits sum.splits intro!: all_srv_set_member)

lemma UpdateMemberStatus_srv: "all_srv clus \<Longrightarrow> all_srv (fst (UpdateMemberStatus Es order clus))"
  using keeps_srv_all [OF fetch_srv.go_recover [of "Members clus" Es clus order]]
  by (auto simp: UpdateMemberStatus_def all_srv_def split: prod.splits)

section \<open>A started group\<close>

lemma go_group_None:
  assumes "go_group f order ms = (ms', evs, Returns None)" "distinct order" "set order \<subseteq> {..<length ms}"
  shows "ms' = run_all f (set order) ms \<and> (\<forall>i\<in>set order. snd (snd (f i (ms ! i))) = Returns None)"
  using assms
proof (induction order arbitrary: ms evs)
  case Nil
  then show ?case by simp
next
  case (Cons i order)
  have i: "i < length ms" "i \<notin> set order" using Cons.prems by auto
  obtain m evs1 where f: "f i (ms ! i) = (m, evs1, Returns None)"
    using Cons.prems(1) i by (cases "f i (ms ! i)") (auto split: outcome.splits prod.splits option.splits)
  obtain evs2 where g: "go_group f order (ms[i := m]) = (ms', evs2, Returns None)"
    using Cons.prems(1) i f by (auto split: outcome.splits prod.splits)
  have "distinct order" "set order \<subseteq> {..<length (ms[i := m])}" using Cons.prems(2,3) by auto
  from Cons.IH [OF g this] have IH: "ms' = run_all f (set order) (ms[i := m])"
    "\<forall>j\<in>set order. snd (snd (f j (ms[i := m] ! j))) = Returns None" by blast+
  have "ms[i := m] ! j = ms ! j" if "j \<in> set order" for j
    using that i by (metis nth_list_update_neq)
  then show ?case using IH i f run_all_insert [OF i, of f] by auto
qed

lemma Member_Start_srv: "snd (snd (Member_Start E m)) = Returns None \<Longrightarrow> srv (fst (Member_Start E m)) \<noteq> None"
  by (auto simp: Member_Start_def Let_def split: sum.splits option.splits if_splits)

lemma scan_leaders_members: "Members (fst (scan_leaders E i found ms clus)) = Members clus"
  by (induction E i found ms clus rule: scan_leaders.induct) (auto split: option.splits)

lemma Cluster_WaitForLeader_srv:
  assumes "Cluster_WaitForLeader E Es ws order clus = Some r" "all_srv clus"
  shows "all_srv (fst r)"
proof -
  let ?f = "\<lambda>i. Member_WaitForLeader (Es i) (ws i) clus"
  obtain q where q: "wait_group ?f order (Members clus) = Some q"
    using assms(1) by (auto simp: Cluster_WaitForLeader_def split: option.splits)
  have "\<forall>m\<in>set (fst q). srv m \<noteq> None"
    using keeps_srv_all [OF wait_srv.wait_group [OF q]] assms(2) by (simp add: all_srv_def)
  then show ?thesis
    using assms(1) q scan_leaders_members [of E 0 False "fst q" "clus\<lparr>Members := fst q\<rparr>"]
    by (cases q) (auto simp: Cluster_WaitForLeader_def all_srv_def
        split: outcome.splits option.splits prod.splits)
qed

lemma Cluster_Start_srv:
  assumes s: "Cluster_Start E Es ws order order' c = Some (Some clus, evs, r)"
    and order: "distinct order" "set order = {..<nat (Config_Size c)}"
  shows "all_srv clus"
proof -
  from s obtain c0 evs0 where s0: "Start_configure E c = (evs0, Returns (Inr c0))"
    by (auto simp: Cluster_Start_def split: prod.splits outcome.splits sum.splits)
  have len: "length (Members c0) = nat (Config_Size c)"
    using Start_configure_inv [OF s0] by (auto simp: cluster_inv_def)
  let ?f = "\<lambda>i. Member_Start (Es i)"
  from s s0 obtain ms evs1 where g: "go_group ?f order (Members c0) = (ms, evs1, Returns None)"
    by (auto simp: Cluster_Start_def split: prod.splits outcome.splits option.splits)
  from s s0 g obtain q where q: "Cluster_WaitForLeader E Es ws order' (c0\<lparr>Members := ms\<rparr>) = Some q" "fst q = clus"
    by (auto simp: Cluster_Start_def split: prod.splits outcome.splits option.splits)
  have "ms = run_all ?f (set order) (Members c0)"
    "\<forall>i\<in>set order. snd (snd (?f i (Members c0 ! i))) = Returns None"
    using go_group_None [OF g] order len by auto
  then have "\<forall>i < length ms. srv (ms ! i) \<noteq> None"
    using Member_Start_srv order(2) len by (simp add: run_all_nth)
  then have "all_srv (c0\<lparr>Members := ms\<rparr>)" by (auto simp: all_srv_def in_set_conv_nth)
  from Cluster_WaitForLeader_srv [OF q(1) this] q(2) show ?thesis by simp
qed

end
