(* ===== verification/WebServing.thy ===== *)
theory WebServing
  imports WebInv
begin

text \<open>
  The serving process as a transition system, its invariant \<open>web_inv\<close>, and when a request can
  panic. The lemmas follow the layers of the code: the cluster, the limiters, the actions, the
  handlers, the cache around them, the routes.
\<close>

section \<open>The invariant\<close>

definition cluster_ready :: "cluster \<Rightarrow> bool" where
  "cluster_ready clus = (cluster_inv clus \<and> csize clus = 5 \<and> all_srv clus \<and> embeddedClient clus
     \<and> TLS_Empty (ClientTLSInfo (ccfg clus)) \<and> \<not> ClientAutoTLS (ccfg clus))"

definition cache_inv :: "web \<Rightarrow> bool" where
  "cache_inv w = (finite (dom (userCache w)) \<and> (\<forall>k\<in>dom (userCache w). 15 \<le> length k))"

definition web_inv :: "web \<Rightarrow> bool" where
  "web_inv w = ((\<exists>clus. globalCluster w = Some clus \<and> cluster_ready clus) \<and> cache_inv w
     \<and> usable_limiter (clientRequestLimiter w) \<and> usable_limiter (stopRestartLimiter w))"

lemma web_inv_cluster:
  assumes "web_inv w" obtains clus where "globalCluster w = Some clus" "cluster_ready clus"
  using assms by (auto simp: web_inv_def)

lemma cluster_ready_frame:
  assumes "cluster_ready a" "same_frame a b" "all_srv b" shows "cluster_ready b"
  using assms same_frame_inv [of a b] by (simp add: cluster_ready_def same_frame_def)

lemma cluster_ready_stop: "cluster_ready c \<Longrightarrow> cluster_ready (fst (Cluster_Stop E i c))"
  by (rule cluster_ready_frame [OF _ Cluster_Stop_frame Cluster_Stop_srv]) (simp_all add: cluster_ready_def)

lemma cluster_ready_restart:
  "cluster_ready c \<Longrightarrow> keeps_config E \<Longrightarrow> cluster_ready (fst (Cluster_Restart E i c))"
  by (rule cluster_ready_frame [OF _ Cluster_Restart_frame Cluster_Restart_srv]) (simp_all add: cluster_ready_def)

lemma cluster_ready_update: "cluster_ready c \<Longrightarrow> cluster_ready (fst (UpdateMemberStatus Es order c))"
  by (rule cluster_ready_frame [OF _ UpdateMemberStatus_frame UpdateMemberStatus_srv])
    (simp_all add: cluster_ready_def)

section \<open>What a request does to the cluster\<close>

text \<open>Nothing, or the stop of a running member of a cluster that has its quorum, or the restart of
  a stopped member.\<close>

inductive node_step :: "env \<Rightarrow> cluster \<Rightarrow> cluster \<Rightarrow> bool" for E where
  same: "node_step E clus clus"
| stop: "member_at clus i = Some m \<Longrightarrow> \<not> is_stopped m \<Longrightarrow> Quorum clus \<le> ActiveNodeN clus
     \<Longrightarrow> Cluster_Stop E i clus = (clus', evs, r) \<Longrightarrow> node_step E clus clus'"
| restart: "member_at clus i = Some m \<Longrightarrow> is_stopped m
     \<Longrightarrow> Cluster_Restart E i clus = (clus', evs, r') \<Longrightarrow> node_step E clus clus'"

inductive_cases node_stepE: "node_step E clus clus'"

text \<open>The web server's view of the cluster: which operations it calls, and how they change the
  number of active nodes.\<close>

locale node_control =
  fixes ready :: "'c \<Rightarrow> bool"
    and stopped :: "'c \<Rightarrow> int \<Rightarrow> bool option"
    and stop :: "'e \<Rightarrow> int \<Rightarrow> 'c \<Rightarrow> 'c"
    and restart :: "'e \<Rightarrow> int \<Rightarrow> 'c \<Rightarrow> 'c"
    and active :: "'c \<Rightarrow> nat"
    and quorum :: "'c \<Rightarrow> nat"
  assumes stop_active: "ready c \<Longrightarrow> stopped c i = Some False \<Longrightarrow> Suc (active (stop e i c)) = active c"
    and restart_active: "ready c \<Longrightarrow> stopped c i = Some True \<Longrightarrow>
      active (restart e i c) \<in> {active c, Suc (active c)}"
    and quorum_kept: "ready c \<Longrightarrow> stopped c i \<noteq> None \<Longrightarrow> quorum (stop e i c) = quorum c \<and> quorum (restart e i c) = quorum c"
begin

lemma guarded_stop:
  assumes "ready c" "stopped c i = Some False" "quorum c \<le> active c"
  shows "quorum c - 1 \<le> active (stop e i c) \<and> quorum (stop e i c) = quorum c"
  using stop_active [OF assms(1,2), of e] quorum_kept [OF assms(1), of i e] assms(2,3) by auto

lemma guarded_restart:
  assumes "ready c" "stopped c i = Some True"
  shows "active c \<le> active (restart e i c) \<and> quorum (restart e i c) = quorum c"
  using restart_active [OF assms, of e] quorum_kept [OF assms(1), of i e] assms(2) by auto

end

lemma ready_stop_eq:
  assumes "all_srv clus" "member_at clus i = Some m"
  shows "\<exists>m' evs. Cluster_Stop E i clus = (set_member i m' clus, evs, Returns ()) \<and> is_stopped m'"
proof -
  obtain s where "srv m = Some s" using all_srv_at [OF assms] by blast
  then show ?thesis
    using Cluster_Stop_running [OF assms(2)] Cluster_Stop_stopped [OF assms(2)] set_member_self [OF assms(2)]
    by (cases "is_stopped m") metis+
qed

lemma restart_eq:
  assumes "member_at clus i = Some m"
  shows "\<exists>m'. fst (Cluster_Restart E i clus) = set_member i m' clus"
  using assms by (cases "Member_Restart E m") (auto simp: Cluster_Restart_def)

interpretation nodes: node_control all_srv "\<lambda>clus i. map_option is_stopped (member_at clus i)"
  "\<lambda>E i clus. fst (Cluster_Stop E i clus)" "\<lambda>E i clus. fst (Cluster_Restart E i clus)" ActiveNodeN Quorum
proof unfold_locales
  fix clus i E
  assume srv: "all_srv clus"
  show "Suc (ActiveNodeN (fst (Cluster_Stop E i clus))) = ActiveNodeN clus"
    if "map_option is_stopped (member_at clus i) = Some False"
  proof -
    obtain m where m: "member_at clus i = Some m" "\<not> is_stopped m" using \<open>map_option _ _ = _\<close> by auto
    obtain m' evs where "Cluster_Stop E i clus = (set_member i m' clus, evs, Returns ())" "is_stopped m'"
      using ready_stop_eq [OF srv m(1)] by blast
    then show ?thesis using ActiveNodeN_set_member [OF m(1), of m'] m(2) by simp
  qed
  show "ActiveNodeN (fst (Cluster_Restart E i clus)) \<in> {ActiveNodeN clus, Suc (ActiveNodeN clus)}"
    if "map_option is_stopped (member_at clus i) = Some True"
  proof -
    obtain m where m: "member_at clus i = Some m" "is_stopped m" using \<open>map_option _ _ = _\<close> by auto
    obtain m' where "fst (Cluster_Restart E i clus) = set_member i m' clus" using restart_eq [OF m(1)] by blast
    then show ?thesis using ActiveNodeN_set_member [OF m(1), of m'] m(2) by (simp split: if_splits)
  qed
  show "Quorum (fst (Cluster_Stop E i clus)) = Quorum clus \<and> Quorum (fst (Cluster_Restart E i clus)) = Quorum clus"
    if "map_option is_stopped (member_at clus i) \<noteq> None"
  proof -
    obtain m where m: "member_at clus i = Some m" using \<open>map_option _ _ \<noteq> _\<close> by auto
    then show ?thesis using ready_stop_eq [OF srv m, of E] restart_eq [OF m, of E] by fastforce
  qed
qed

lemma node_step_active:
  assumes "node_step E clus clus'" "all_srv clus"
  shows "min (ActiveNodeN clus) (Quorum clus - 1) \<le> ActiveNodeN clus' \<and> Quorum clus' = Quorum clus"
  using assms(1)
proof cases
  case (stop i m evs r)
  then show ?thesis using nodes.guarded_stop [OF assms(2), of i E] by simp
next
  case (restart i m evs r')
  then show ?thesis using nodes.guarded_restart [OF assms(2), of i E] by (simp add: min_le_iff_disj)
qed simp

section \<open>A ready cluster does not panic\<close>

lemma ready_find:
  assumes "cluster_ready clus" "FindIndex clus ep \<noteq> - 1"
  obtains m s where "member_at clus (FindIndex clus ep) = Some m" "srv m = Some s"
    "clientHostToIndex clus (getHost ep) = Some (nat (FindIndex clus ep))"
proof -
  have inv: "cluster_inv clus" "all_srv clus" using assms(1) by (simp_all add: cluster_ready_def)
  have "0 \<le> FindIndex clus ep \<and> FindIndex clus ep < int (length (Members clus))"
    using FindIndex_range [OF inv(1), of ep] assms(2) by auto
  then have m: "member_at clus (FindIndex clus ep) = Some (Members clus ! nat (FindIndex clus ep))"
    by (simp add: member_at_def)
  moreover obtain s where "srv (Members clus ! nat (FindIndex clus ep)) = Some s"
    using all_srv_at [OF inv(2) m] by blast
  moreover have "clientHostToIndex clus (getHost ep) = Some (nat (FindIndex clus ep))"
    using assms(2) by (simp add: FindIndex_def split: option.splits)
  ultimately show thesis using that by blast
qed

lemma ready_client:
  assumes "cluster_ready clus" "FindIndex clus ep \<noteq> - 1"
  shows "\<exists>cli. Cluster_Client E clus (ep # eps) = Returns (Some cli, None, None)"
proof -
  from ready_find [OF assms] obtain m s where m: "member_at clus (FindIndex clus ep) = Some m" "srv m = Some s"
    "clientHostToIndex clus (getHost ep) = Some (nat (FindIndex clus ep))" .
  have "int (nat (FindIndex clus ep)) = FindIndex clus ep"
    using member_atD [OF m(1)] by simp
  with m assms(1) show ?thesis
    by (simp add: Cluster_Client_def with_member_def Member_Client_def cluster_ready_def)
qed

lemma with_client_ready:
  assumes "cluster_ready clus" "FindIndex clus ep \<noteq> - 1" "ReqEndpoints creq = ep # eps"
  shows "with_client rw clus creq cresp rest = rest"
proof -
  obtain cli where "Cluster_Client (cenv rw) clus (ep # eps) = Returns (Some cli, None, None)"
    using ready_client [OF assms(1,2)] by blast
  then show ?thesis using assms(3) by (simp add: with_client_def)
qed

lemma AllMemberStatus_ready:
  assumes "cluster_ready clus"
  shows "AllMemberStatus clus = Returns (map status (Members clus))"
  using assms by (simp add: AllMemberStatus_def fill_def cluster_ready_def cluster_inv_def)

section \<open>The random pairs\<close>

lemma multi_loop_length:
  assumes "multi_loop srcs j n sliceN prefix rs m = Some r" "0 \<le> n"
  shows "\<exists>rs' j'. r = Returns (rs', j') \<and> length rs' = sliceN"
proof -
  have "0 \<le> n \<longrightarrow> (\<exists>rs' j'. r = Returns (rs', j') \<and> length rs' = sliceN)"
    by (rule multi_loop.raw_induct [OF _ assms(1),
        where P = "\<lambda>srcs j n sliceN prefix rs m r. 0 \<le> n \<longrightarrow> (\<exists>rs' j'. r = Returns (rs', j') \<and> length rs' = sliceN)"])
      (auto simp: Let_def randBytes_def split: if_splits option.splits)
  with assms(2) show ?thesis by blast
qed

lemma pairs_length:
  assumes "multiRandKeyValues srcs kp vp 3 3 = Some r"
  shows "\<exists>a b c. r = Returns [a, b, c]"
proof -
  have s: "\<exists>rs' j'. q = Returns (rs', j') \<and> length rs' = 3" if "multiRandStrings srcs j 3 3 pf = Some q" for j pf q
    using that multi_loop_length [of srcs j 3 3 pf "[]" "[]" q] by (simp add: multiRandStrings_def)
  have len: "length xs = 3 \<Longrightarrow> \<exists>a b c. xs = [a, b, c]" for xs :: "string list"
    by (auto simp: numeral_3_eq_3 length_Suc_conv)
  obtain q1 where q1: "multiRandStrings srcs 0 3 3 kp = Some q1"
    using assms by (auto simp: multiRandKeyValues_def split: option.splits)
  then obtain ks j where ks: "q1 = Returns (ks, j)" "length ks = 3" using s by blast
  obtain q2 where q2: "multiRandStrings srcs j 3 3 vp = Some q2"
    using assms q1 ks by (auto simp: multiRandKeyValues_def split: option.splits)
  then obtain vs j' where vs: "q2 = Returns (vs, j')" "length vs = 3" using s by blast
  show ?thesis using assms q1 q2 ks vs len [OF ks(2)] len [OF vs(2)]
    by (auto simp: multiRandKeyValues_def)
qed

section \<open>The actions\<close>

text \<open>The calls that have no response although the handler reads one.\<close>

definition missing_response :: "req_world \<Rightarrow> ClientRequest \<Rightarrow> bool" where
  "missing_response rw creq =
     (Key (ReqKeyValue creq) \<noteq> []
      \<and> (Action creq = ''delete'' \<and> fst (delete_rpc rw (Key (ReqKeyValue creq)) (RangePrefix creq)) = None
         \<or> Action creq = ''get'' \<and> fst (get_rpc rw (Key (ReqKeyValue creq)) (RangePrefix creq)) = None))"

lemma write_no_crash:
  assumes "cluster_ready clus" "FindIndex clus ep \<noteq> - 1" "ReqEndpoints creq = ep # eps"
  shows "write_action rw clus creq cresp \<noteq> Crashed p"
  using assms by (simp add: write_action_def with_client_ready Let_def split: option.splits)

lemma stress_no_crash:
  assumes "cluster_ready clus" "FindIndex clus ep \<noteq> - 1" "ReqEndpoints creq = ep # eps"
    "stress_action rw clus creq cresp = Some r"
  shows "r \<noteq> Crashed p"
proof (cases "multiRandKeyValues (sources rw) ''foo'' ''bar'' 3 3")
  case None
  then show ?thesis using assms by (simp add: stress_action_def with_client_ready)
next
  case (Some q)
  then obtain a b c where "q = Returns [a, b, c]" using pairs_length by blast
  then show ?thesis using assms Some
    by (auto simp: stress_action_def with_client_ready Let_def numeral_3_eq_3 split: option.splits)
qed

lemma delete_get_crash:
  assumes "cluster_ready clus" "FindIndex clus ep \<noteq> - 1" "ReqEndpoints creq = ep # eps"
  shows "Action creq = ''delete'' \<Longrightarrow> delete_action rw clus creq cresp = Crashed p
      \<Longrightarrow> p = nil_panic \<and> missing_response rw creq"
    "Action creq = ''get'' \<Longrightarrow> get_action rw clus creq cresp = Crashed p
      \<Longrightarrow> p = nil_panic \<and> missing_response rw creq"
  using assms
  by (auto simp: delete_action_def get_action_def with_client_ready Let_def missing_response_def
      split: if_splits prod.splits option.splits)

lemma limit_cases:
  assumes "web_inv w"
  obtains (rejected) msg where "stop_restart_limit name rw cresp w = Inl (Replied (reject msg cresp) (write_err rw))"
  | (granted) "stop_restart_limit name rw cresp w
      = Inr (w\<lparr>stopRestartLimiter := Advance (advance2_at rw) (stopRestartLimiter w)\<rparr>)"
proof -
  have u: "usable_limiter (stopRestartLimiter w)" using assms by (simp add: web_inv_def)
  obtain msg k where "Check (stopRestartLimiter w) (check2_case rw) (check2_at rw) = Returns (msg, k)"
    using limiter.check_returns [OF u] by blast
  then show thesis using that by (cases k) (auto simp: stop_restart_limit_def)
qed

lemma web_inv_upd:
  assumes "web_inv w" "cluster_ready clus"
  shows "web_inv (w\<lparr>stopRestartLimiter := Advance t (stopRestartLimiter w)\<rparr>)"
    "web_inv (w\<lparr>stopRestartLimiter := Advance t (stopRestartLimiter w), globalCluster := Some clus\<rparr>)"
    "web_inv (w\<lparr>clientRequestLimiter := Advance t (clientRequestLimiter w)\<rparr>)"
    "web_inv (w\<lparr>globalCluster := Some clus\<rparr>)"
  using assms limiter.advance_usable by (auto simp: web_inv_def cache_inv_def)

text \<open>\<open>outcome_ok\<close>: the invariant holds, and the cluster took a step of \<open>node_step\<close>.\<close>

definition outcome_ok :: "env \<Rightarrow> web \<Rightarrow> web \<Rightarrow> bool" where
  "outcome_ok E w w' = (web_inv w' \<and> (\<exists>clus clus'. globalCluster w = Some clus
     \<and> globalCluster w' = Some clus' \<and> node_step E clus clus'))"

lemma outcome_same: "web_inv w' \<Longrightarrow> globalCluster w' = globalCluster w \<Longrightarrow> outcome_ok E w w'"
  using node_step.same by (auto simp: outcome_ok_def web_inv_def)

lemma stop_action_ok:
  assumes inv: "web_inv w" and g: "globalCluster w = Some clus" and r: "cluster_ready clus" "FindIndex clus ep \<noteq> - 1"
    and s: "stop_action rw clus (FindIndex clus ep) cresp w = (w', evs, res)"
  shows "outcome_ok (cenv rw) w w' \<and> res \<noteq> Crashed p"
proof -
  let ?i = "FindIndex clus ep" and ?c = "fst (Cluster_Stop (cenv rw) (FindIndex clus ep) clus)"
  from ready_find [OF r] obtain m sv where m: "member_at clus ?i = Some m" "srv m = Some sv" .
  have st: "Cluster_MemberStatus clus ?i = Returns (status m)" "IsStopped clus ?i = Returns (is_stopped m)"
    using m by (simp_all add: Cluster_MemberStatus_def IsStopped_def with_member_def)
  from inv show ?thesis
  proof (cases rule: limit_cases [where name = "''stop-node''" and rw = rw and cresp = cresp])
    case (rejected msg)
    then show ?thesis using s inv outcome_same [OF inv] by (auto simp: stop_action_def)
  next
    case granted
    have w1: "outcome_ok (cenv rw) w (w\<lparr>stopRestartLimiter := Advance t (stopRestartLimiter w)\<rparr>)" for t
      by (rule outcome_same [OF web_inv_upd(1) [OF inv r(1)]]) simp
    show ?thesis
    proof (cases "ActiveNodeN clus < Quorum clus \<or> is_stopped m")
      case True
      then show ?thesis using s granted st w1
        by (cases "ActiveNodeN clus < Quorum clus") (auto simp: stop_action_def)
    next
      case False
      then obtain m' where c: "Cluster_Stop (cenv rw) ?i clus = (set_member ?i m' clus, [CloseEtcd sv], Returns ())"
        using Cluster_Stop_running [OF m] by blast
      have "Cluster_MemberStatus (set_member ?i m' clus) ?i = Returns (status m')"
        by (simp add: Cluster_MemberStatus_def with_member_def member_at_set_member [OF m(1)])
      moreover have "cluster_ready (set_member ?i m' clus)"
        using cluster_ready_stop [OF r(1), of "cenv rw" ?i] c by simp
      moreover have "node_step (cenv rw) clus (set_member ?i m' clus)"
        using node_step.stop [OF m(1) _ _ c] False by simp
      ultimately show ?thesis using s granted st False c web_inv_upd(2) [OF inv] g
        by (auto simp: stop_action_def Let_def outcome_ok_def)
    qed
  qed
qed

lemma Member_Restart_no_panic:
  assumes "srv m = Some s"
  shows "\<exists>m' evs err. Member_Restart E m = (m', evs, Returns err)"
  using assms by (auto simp: Member_Restart_def Let_def split: sum.split)

lemma restart_action_ok:
  assumes inv: "web_inv w" and g: "globalCluster w = Some clus" and r: "cluster_ready clus" "FindIndex clus ep \<noteq> - 1" and k: "keeps_config (cenv rw)"
    and s: "restart_action rw clus (FindIndex clus ep) cresp w = (w', evs, res)"
  shows "outcome_ok (cenv rw) w w' \<and> res \<noteq> Crashed p"
proof -
  let ?i = "FindIndex clus ep"
  from ready_find [OF r] obtain m sv where m: "member_at clus ?i = Some m" "srv m = Some sv" .
  have st: "Cluster_MemberStatus clus ?i = Returns (status m)" "IsStopped clus ?i = Returns (is_stopped m)"
    using m by (simp_all add: Cluster_MemberStatus_def IsStopped_def with_member_def)
  from inv show ?thesis
  proof (cases rule: limit_cases [where name = "''restart-node''" and rw = rw and cresp = cresp])
    case (rejected msg)
    then show ?thesis using s inv outcome_same [OF inv] by (auto simp: restart_action_def)
  next
    case granted
    have w1: "outcome_ok (cenv rw) w (w\<lparr>stopRestartLimiter := Advance t (stopRestartLimiter w)\<rparr>)" for t
      by (rule outcome_same [OF web_inv_upd(1) [OF inv r(1)]]) simp
    show ?thesis
    proof (cases "is_stopped m")
      case False
      then show ?thesis using s granted st w1 by (auto simp: restart_action_def)
    next
      case True
      obtain m' evs' err where mr: "Member_Restart (cenv rw) m = (m', evs', Returns err)"
        using Member_Restart_no_panic [OF m(2)] by blast
      then have c: "Cluster_Restart (cenv rw) ?i clus = (set_member ?i m' clus, evs', Returns err)"
        using m(1) by (simp add: Cluster_Restart_def)
      have "Cluster_MemberStatus (set_member ?i m' clus) ?i = Returns (status m')"
        by (simp add: Cluster_MemberStatus_def with_member_def member_at_set_member [OF m(1)])
      moreover have "cluster_ready (set_member ?i m' clus)"
        using cluster_ready_restart [OF r(1) k, of ?i] c by simp
      moreover have "node_step (cenv rw) clus (set_member ?i m' clus)"
        using node_step.restart [OF m(1) _ c] True by simp
      ultimately show ?thesis using s granted st True c web_inv_upd(2) [OF inv] g
        by (cases err) (auto simp: restart_action_def Let_def outcome_ok_def)
    qed
  qed
qed

end
