(* ===== verification/WebReach.thy ===== *)
theory WebReach
  imports WebServing
begin

text \<open>
  The serving process as a transition system. \<open>serving\<close> is its states: \<open>StartServer\<close> has
  returned, and then requests are served and the two background loops take their rounds, in any
  order. A request is one step. Every such state satisfies \<open>web_inv\<close>, and a request in it panics
  only where a failed call has no response.
\<close>

section \<open>The handlers\<close>

lemma pure_action:
  assumes "map_option (\<lambda>r. (w, evs0, r)) x = Some (w', evs, res)"
  shows "w' = w \<and> x = Some res"
  using assms by auto

lemma dispatch_ok:
  assumes inv: "web_inv w" and g: "globalCluster w = Some clus" and r: "cluster_ready clus" "FindIndex clus ep \<noteq> - 1" and k: "keeps_config (cenv rw)"
    and ep: "ReqEndpoints creq = ep # eps"
    and d: "dispatch rw clus (FindIndex clus ep) creq cresp w = Some (w', evs, res)"
  shows "outcome_ok (cenv rw) w w' \<and> (\<forall>p. res = Crashed p \<longrightarrow> p = nil_panic \<and> missing_response rw creq)"
proof -
  have same: "outcome_ok (cenv rw) w w" by (rule outcome_same [OF inv refl])
  note pure = write_no_crash [OF r ep] stress_no_crash [OF r ep] delete_get_crash [OF r ep]
  consider "Action creq = ''write''" | "Action creq = ''stress''" | "Action creq = ''delete''" | "Action creq = ''get''"
    | "Action creq = ''stop-node''" | "Action creq = ''restart-node''"
    | "Action creq \<notin> {''write'', ''stress'', ''delete'', ''get'', ''stop-node'', ''restart-node''}" by blast
  then show ?thesis
  proof cases
    case 2
    then have "w' = w" "stress_action rw clus creq cresp = Some res"
      using d pure_action [of w "[]"] by (simp_all add: dispatch_def)
    then show ?thesis using same pure(2) by blast
  next
    case 5
    then have "stop_action rw clus (FindIndex clus ep) cresp w = (w', evs, res)" using d by (simp add: dispatch_def)
    then show ?thesis using stop_action_ok [OF inv g r] by blast
  next
    case 6
    then have "restart_action rw clus (FindIndex clus ep) cresp w = (w', evs, res)" using d by (simp add: dispatch_def)
    then show ?thesis using restart_action_ok [OF inv g r k] by blast
  qed (use d same pure in \<open>auto simp: dispatch_def\<close>)
qed

lemma random_pairs_return:
  assumes "\<forall>j. has_letters (srcs j)"
  shows "\<exists>q. multiRandKeyValues srcs kp vp 3 3 = Some q"
proof -
  have s: "\<exists>rs. multiRandStrings srcs j 3 3 p = Some (Returns (rs, j + 3))" for j p
    using multiRandStrings_returns [OF assms, of 3 3 j p] by auto
  obtain ks where ks: "multiRandStrings srcs 0 3 3 kp = Some (Returns (ks, 0 + 3))" using s by blast
  obtain vs where "multiRandStrings srcs (0 + 3) 3 3 vp = Some (Returns (vs, 0 + 3 + 3))" using s by blast
  with ks show ?thesis by (simp add: multiRandKeyValues_def)
qed

lemma dispatch_returns:
  assumes "\<forall>j. has_letters (sources rw j)"
  shows "dispatch rw clus i creq cresp w \<noteq> None"
proof -
  obtain q where "multiRandKeyValues (sources rw) ''foo'' ''bar'' 3 3 = Some q"
    using random_pairs_return [OF assms] by blast
  then have "stress_action rw clus creq cresp \<noteq> None"
    by (simp add: stress_action_def Let_def split: handled.split outcome.split option.split)
  then show ?thesis by (simp add: dispatch_def del: not_None_eq)
qed

lemma clientRequest_ok:
  assumes inv: "web_inv w" and k: "keeps_config (cenv rw)"
    and c: "clientRequestHandler rw req w = Some (w', evs, res)"
  shows "outcome_ok (cenv rw) w w' \<and> (\<forall>p. res = Crashed p \<longrightarrow> p = nil_panic \<and> Method req = ''POST''
    \<and> (\<exists>creq. body rw = Inr creq \<and> missing_response rw (escape_request creq)))"
proof (cases "Method req = ''POST''")
  case post: True
  obtain msg good where ch: "Check (clientRequestLimiter w) (check_case rw) (check_at rw) = Returns (msg, good)"
    using limiter.check_returns [of "clientRequestLimiter w"] inv by (fastforce simp: web_inv_def)
  let ?w = "w\<lparr>clientRequestLimiter := Advance (advance_at rw) (clientRequestLimiter w)\<rparr>"
  obtain clus where clus: "globalCluster w = Some clus" "cluster_ready clus" using web_inv_cluster [OF inv] .
  have inv1: "web_inv ?w" using web_inv_upd(3) [OF inv clus(2)] .
  have clus1: "globalCluster ?w = Some clus" using clus(1) by simp
  show ?thesis
  proof (cases "good \<and> (\<exists>creq ep eps. body rw = Inr creq \<and> ReqEndpoints creq = ep # eps \<and> FindIndex clus ep \<noteq> - 1)")
    case True
    then obtain creq ep eps where b: "good" "body rw = Inr creq" "ReqEndpoints creq = ep # eps" "FindIndex clus ep \<noteq> - 1"
      by blast
    have e: "ReqEndpoints (escape_request creq) = ep # eps" using b(3) by (simp add: escape_request_def)
    have "dispatch rw clus (FindIndex clus ep) (escape_request creq)
        (new_response\<lparr>RespRequest := escape_request creq\<rparr>) ?w = Some (w', evs, res)"
      using c post ch b e clus(1) by (simp add: clientRequestHandler_def Let_def)
    from dispatch_ok [OF inv1 clus1 clus(2) b(4) k e this] b(2) post clus(1) show ?thesis
      by (auto simp: outcome_ok_def)
  next
    case False
    then have "(w' = w \<or> w' = ?w) \<and> (\<forall>p. res \<noteq> Crashed p)"
      using c post ch clus(1)
      by (auto simp: clientRequestHandler_def Let_def escape_request_def split: sum.splits list.splits if_splits)
    then show ?thesis using outcome_same [OF inv refl] outcome_same [OF inv1, of w] by auto
  qed
next
  case False
  then show ?thesis using c outcome_same [OF inv refl] by (auto simp: clientRequestHandler_def)
qed

lemma clientRequest_returns:
  assumes "\<forall>j. has_letters (sources rw j)"
  shows "clientRequestHandler rw req w \<noteq> None"
  using dispatch_returns [OF assms]
  by (auto simp: clientRequestHandler_def Let_def split: outcome.splits sum.splits list.splits option.splits)

lemma connect_ok:
  assumes "web_inv w" "connectHandler werr req u w = (w', res)"
  shows "web_inv w' \<and> globalCluster w' = globalCluster w \<and> (\<forall>p. res \<noteq> Crashed p)"
  using assms by (auto simp: connectHandler_def web_inv_def cache_inv_def split: if_splits)

lemma serverStatus_ok:
  assumes inv: "web_inv w" and u: "15 \<le> length u" and keys: "enumerates keys w"
    and s: "serverStatusHandler werr E est now keys req u w = (w', res)"
  shows "web_inv w' \<and> globalCluster w' = globalCluster w \<and> (\<forall>p. res \<noteq> Crashed p)"
proof -
  obtain clus where clus: "globalCluster w = Some clus" "cluster_ready clus" using web_inv_cluster [OF inv] .
  have "15 \<le> length k" if "k \<in> set keys" for k
    using that inv keys by (auto simp: web_inv_def cache_inv_def enumerates_def)
  then have "\<forall>k\<in>set keys. 9 \<le> length k" by fastforce
  then obtain ids where ids: "getUserIDs keys = Returns ids" by (simp add: getUserIDs_def collect_ids_eq)
  have upd: "web_inv (w\<lparr>userCache := (userCache w)(u \<mapsto> now)\<rparr>)"
    using inv u by (auto simp: web_inv_def cache_inv_def)
  show ?thesis using s inv upd ids clus AllMemberStatus_ready [OF clus(2)]
    by (auto simp: serverStatusHandler_def Let_def split: if_splits)
qed

section \<open>The cache around them\<close>

lemma withCache_ok:
  assumes inv: "web_inv w" and len: "13 \<le> length st"
  shows "\<exists>u w2. withCache crash h st now req w = h u w2 \<and> web_inv w2 \<and> 15 \<le> length u
    \<and> globalCluster w2 = globalCluster w"
proof -
  obtain u where u: "generateUserID req = Returns u" "15 \<le> length u" using generateUserID_returns by blast
  have s: "slice st 0 13 = Returns (take 13 st)" using len by (simp add: slice_ok)
  let ?w1 = "w\<lparr>visits := visits w @ [u @ take 13 st]\<rparr>"
  let ?w2 = "case userCache ?w1 u of None \<Rightarrow> ?w1\<lparr>userCache := (userCache ?w1)(u \<mapsto> now)\<rparr> | Some t \<Rightarrow> ?w1"
  have "withCache crash h st now req w = h u ?w2" using u s by (simp add: withCache_def Let_def)
  moreover have "web_inv ?w2" using inv u(2) by (auto simp: web_inv_def cache_inv_def split: option.split)
  moreover have "globalCluster ?w2 = globalCluster w" by (simp split: option.split)
  ultimately show ?thesis using u(2) by (intro exI conjI)
qed

section \<open>The routes\<close>

text \<open>What is asked of the outside in one request: the time prints in at least 13 characters, the
  servers it starts keep their configuration, ranging over the cache enumerates it.\<close>

definition fair_world :: "serve_world \<Rightarrow> bool" where
  "fair_world sw = (13 \<le> length (stamp sw) \<and> keeps_config (cenv (req_of sw))
     \<and> (\<forall>w. finite (dom (userCache w)) \<longrightarrow> enumerates (keys_of sw w) w))"

text \<open>The only panic left.\<close>

definition lost_response :: "serve_world \<Rightarrow> request \<Rightarrow> bool" where
  "lost_response sw req = (Path req = ''/client-request'' \<and> Method req = ''POST''
     \<and> (\<exists>creq. body (req_of sw) = Inr creq \<and> missing_response (req_of sw) (escape_request creq)))"

lemma map_handled_crashed: "map_handled f r = Crashed p \<longleftrightarrow> r = Crashed p"
  by (cases r) auto

lemma serve_ok:
  assumes inv: "web_inv w" and fair: "fair_world sw" and s: "serve sw req w = Some (w', evs, r)"
  shows "outcome_ok (cenv (req_of sw)) w w' \<and> (\<forall>p. r = Served (Crashed p) \<longrightarrow> p = nil_panic \<and> lost_response sw req)"
proof -
  let ?crash = "\<lambda>w p. Some (w, [] :: event list, Served (Crashed p))"
  have len: "13 \<le> length (stamp sw)" using fair by (simp add: fair_world_def)
  consider "Path req = ''/health''" | "Path req = ''/conn''" | "Path req = ''/server-status''"
    | "Path req = ''/client-request''"
    | "Path req \<notin> {''/health'', ''/conn'', ''/server-status'', ''/client-request''}" by blast
  then show ?thesis
  proof cases
    case 2
    let ?h = "\<lambda>userID w. case connectHandler (write_err (req_of sw)) req userID w of
             (w', r) \<Rightarrow> Some (w', [], Served (map_handled ConnectBody r))"
    have eq: "serve sw req w = withCache ?crash ?h (stamp sw) (now_at sw) req w" using 2 by (simp add: serve_def Let_def)
    obtain u w2 where h: "withCache ?crash ?h (stamp sw) (now_at sw) req w = ?h u w2" "web_inv w2" "15 \<le> length u"
      "globalCluster w2 = globalCluster w"
      using withCache_ok [OF inv len, of ?crash ?h "now_at sw" req] by (elim exE conjE) (rule that)
    obtain w3 res where c: "connectHandler (write_err (req_of sw)) req u w2 = (w3, res)" by fastforce
    have "serve sw req w = Some (w3, [], Served (map_handled ConnectBody res))"
      using trans [OF eq h(1)] by (simp add: c)
    with s connect_ok [OF h(2) c] h(4) outcome_same [of w' w] show ?thesis by (auto simp: map_handled_crashed)
  next
    case 3
    let ?h = "\<lambda>userID w. case serverStatusHandler (write_err (req_of sw)) (cenv (req_of sw)) (estimate_of sw)
               (now_at sw) (keys_of sw w) req userID w of
             (w', r) \<Rightarrow> Some (w', [], Served (map_handled StatusBody r))"
    have eq: "serve sw req w = withCache ?crash ?h (stamp sw) (now_at sw) req w" using 3 by (simp add: serve_def Let_def)
    obtain u w2 where h: "withCache ?crash ?h (stamp sw) (now_at sw) req w = ?h u w2" "web_inv w2" "15 \<le> length u"
      "globalCluster w2 = globalCluster w"
      using withCache_ok [OF inv len, of ?crash ?h "now_at sw" req] by (elim exE conjE) (rule that)
    have keys: "enumerates (keys_of sw w2) w2" using fair h(2) by (simp add: fair_world_def web_inv_def cache_inv_def)
    obtain w3 res where c: "serverStatusHandler (write_err (req_of sw)) (cenv (req_of sw)) (estimate_of sw)
               (now_at sw) (keys_of sw w2) req u w2 = (w3, res)" by fastforce
    have "serve sw req w = Some (w3, [], Served (map_handled StatusBody res))"
      using trans [OF eq h(1)] by (simp add: c)
    with s serverStatus_ok [OF h(2,3) keys c] h(4) outcome_same [of w' w] show ?thesis
      by (auto simp: map_handled_crashed)
  next
    case 4
    let ?h = "\<lambda>userID w. map_option (\<lambda>(w', evs, r). (w', evs, Served (map_handled ClientBody r)))
             (clientRequestHandler (req_of sw) req w)"
    have eq: "serve sw req w = withCache ?crash ?h (stamp sw) (now_at sw) req w" using 4 by (simp add: serve_def Let_def)
    obtain w2 where h: "withCache ?crash ?h (stamp sw) (now_at sw) req w = ?h [] w2" "web_inv w2"
      "globalCluster w2 = globalCluster w"
      using withCache_ok [OF inv len, of ?crash ?h "now_at sw" req] by (elim exE conjE) (rule that)
    obtain res where c: "clientRequestHandler (req_of sw) req w2 = Some (w', evs, res)"
      "r = Served (map_handled ClientBody res)" using s trans [OF eq h(1)] by auto
    have "keeps_config (cenv (req_of sw))" using fair by (simp add: fair_world_def)
    from clientRequest_ok [OF h(2) this c(1)] c(2) 4 h(3) show ?thesis
      by (auto simp: map_handled_crashed lost_response_def outcome_ok_def)
  qed (use s outcome_same [OF inv refl] in \<open>auto simp: serve_def\<close>)
qed

lemma serve_returns:
  assumes "\<forall>j. has_letters (sources (req_of sw) j)"
  shows "serve sw req w \<noteq> None"
  using clientRequest_returns [OF assms]
  by (auto simp: serve_def withCache_def Let_def split: outcome.split prod.split)

section \<open>The process\<close>

lemma clean_round_ok:
  assumes "web_inv w" shows "web_inv (clean_round now w)"
proof -
  have sub: "dom (userCache (clean_round now w)) \<subseteq> dom (userCache w)"
    by (auto simp: clean_round_def split: option.splits if_splits)
  then have "cache_inv (clean_round now w)"
    using assms finite_subset [OF sub] unfolding web_inv_def cache_inv_def by blast
  then show ?thesis using assms by (simp add: web_inv_def clean_round_def)
qed

lemma update_round_ok:
  assumes "web_inv w" "update_round Es order keys w = r"
  shows "\<exists>w'. r = Returns w' \<and> web_inv w'"
proof -
  obtain clus where "globalCluster w = Some clus" "cluster_ready clus" using web_inv_cluster [OF assms(1)] .
  then show ?thesis using assms cluster_ready_update web_inv_upd(4) by (auto simp: update_round_def)
qed

text \<open>The five members of the server's cluster are started in some order, in worlds where the
  servers keep their configuration; no request was served before.\<close>

definition fair_start :: "start_world \<Rightarrow> globals \<Rightarrow> bool" where
  "fair_start st g = (distinct (start_order st) \<and> set (start_order st) = {..<5}
     \<and> (\<forall>i. keeps_config (start_envs st i)) \<and> userCache (web_of g) = Map.empty)"

lemma StartServer_cluster:
  assumes s: "StartServer st port g = Some (g', evs, Returns (Inr server))"
  obtains clus dir evs' where "Cluster_Start (start_env st) (start_envs st) (start_leads st) (start_order st)
      (wait_order st) (cluster_config dir (rootPort g)) = Some (Some clus, evs', Returns None)"
    "web_of g' = (web_of g)\<lparr>webserverPort := port, globalCluster := Some clus,
       clientRequestLimiter := NewRequestLimiter clientRequestIntervalLimit,
       stopRestartLimiter := NewRequestLimiter stopRestartIntervalLimit\<rparr>"
    "httpServer server" "\<not> srvLocked server" "\<not> srvStopped server"
proof -
  let ?g = "g\<lparr>web_of := (web_of g)\<lparr>webserverPort := port\<rparr>\<rparr>"
  obtain g2 c evs' where c: "startCluster st ?g = Some (g2, c, evs', Returns None)"
    and g': "web_of g' = (web_of g2)\<lparr>globalCluster := c,
                        clientRequestLimiter := NewRequestLimiter clientRequestIntervalLimit,
                        stopRestartLimiter := NewRequestLimiter stopRestartIntervalLimit\<rparr>"
    and srv: "httpServer server" "\<not> srvLocked server" "\<not> srvStopped server"
    using s by (auto simp: StartServer_def Let_def split: option.splits prod.splits outcome.splits)
  obtain dir where d: "Cluster_Start (start_env st) (start_envs st) (start_leads st) (start_order st) (wait_order st)
                  (cluster_config dir (rootPort g)) = Some (c, evs', Returns None)"
    and g2: "g2 = ?g\<lparr>rootPort := rootPort ?g + 10\<rparr>"
    using c by (auto simp: startCluster_def Let_def split: sum.splits)
  obtain clus where clus: "c = Some clus"
    using d by (auto simp: Cluster_Start_def split: prod.splits outcome.splits option.splits sum.splits)
  show thesis by (rule that [OF d [unfolded clus] _ srv]) (simp add: g' g2 clus)
qed

lemma StartServer_ok:
  assumes fair: "fair_start st g" and s: "StartServer st port g = Some (g', evs, Returns (Inr server))"
  shows "web_inv (web_of g')"
proof -
  obtain clus dir evs' where d: "Cluster_Start (start_env st) (start_envs st) (start_leads st) (start_order st)
      (wait_order st) (cluster_config dir (rootPort g)) = Some (Some clus, evs', Returns None)"
    and g': "web_of g' = (web_of g)\<lparr>webserverPort := port, globalCluster := Some clus,
       clientRequestLimiter := NewRequestLimiter clientRequestIntervalLimit,
       stopRestartLimiter := NewRequestLimiter stopRestartIntervalLimit\<rparr>"
    by (rule StartServer_cluster [OF s])
  have "cluster_inv clus \<and> csize clus = 5 \<and> ccfg clus = cluster_config dir (rootPort g) \<and> embeddedClient clus"
    using Cluster_Start_inv [OF d] fair by (simp add: fair_start_def cluster_config_def)
  moreover have "all_srv clus"
    by (rule Cluster_Start_srv [OF d])
      (use fair in \<open>simp_all add: fair_start_def cluster_config_def\<close>)
  ultimately have "cluster_ready clus" by (simp add: cluster_ready_def cluster_config_def TLS_Empty_def)
  then show ?thesis using fair
    by (simp add: web_inv_def cache_inv_def g' fair_start_def new_usable)
qed

inductive web_step :: "web \<Rightarrow> web \<Rightarrow> bool" where
  request: "fair_world sw \<Longrightarrow> serve sw req w = Some (w', evs, r) \<Longrightarrow> web_step w w'"
| update: "enumerates keys w \<Longrightarrow> update_round Es order keys w = Returns w' \<Longrightarrow> web_step w w'"
| clean: "web_step w (clean_round now w)"

inductive serving :: "web \<Rightarrow> bool" where
  start: "fair_start st g \<Longrightarrow> StartServer st port g = Some (g', evs, Returns (Inr server)) \<Longrightarrow> serving (web_of g')"
| step: "serving w \<Longrightarrow> web_step w w' \<Longrightarrow> serving w'"

inductive_cases web_stepE: "web_step w w'"

lemma web_step_inv: "web_step w w' \<Longrightarrow> web_inv w \<Longrightarrow> web_inv w'"
  by (erule web_stepE) (auto dest: serve_ok update_round_ok clean_round_ok simp: outcome_ok_def)

lemma serving_inv: "serving w \<Longrightarrow> web_inv w"
  by (induction rule: serving.induct) (auto dest: StartServer_ok web_step_inv)

lemma serving_process_cluster:
  assumes "serving w" obtains clus where "globalCluster w = Some clus" "cluster_ready clus"
  using web_inv_cluster [OF serving_inv [OF assms]] .

section \<open>Sequences of requests\<close>

definition request_step :: "web \<Rightarrow> web \<Rightarrow> bool" where
  "request_step w w' = (\<exists>sw req evs r. fair_world sw \<and> serve sw req w = Some (w', evs, r))"

lemma request_step_serving: "serving w \<Longrightarrow> request_step w w' \<Longrightarrow> serving w'"
  using web_step.request serving.step by (auto simp: request_step_def)

lemma serving_requests: "serving w \<Longrightarrow> request_step\<^sup>*\<^sup>* w w' \<Longrightarrow> serving w'"
  by (rotate_tac, induction rule: rtranclp_induct) (auto dest: request_step_serving)

lemma request_step_active:
  assumes "serving w" "request_step w w'"
  shows "\<exists>clus clus'. globalCluster w = Some clus \<and> globalCluster w' = Some clus'
     \<and> min (ActiveNodeN clus) 2 \<le> ActiveNodeN clus'"
proof -
  have inv: "web_inv w" using assms(1) by (rule serving_inv)
  obtain sw req evs r where s: "fair_world sw" "serve sw req w = Some (w', evs, r)"
    using assms(2) by (auto simp: request_step_def)
  obtain clus clus' where c: "globalCluster w = Some clus" "globalCluster w' = Some clus'"
    "node_step (cenv (req_of sw)) clus clus'"
    using serve_ok [OF inv s] by (auto simp: outcome_ok_def)
  have "cluster_ready clus" using web_inv_cluster [OF inv] c(1) by fastforce
  then have "all_srv clus" "length (Members clus) = 5" by (auto simp: cluster_ready_def cluster_inv_def)
  moreover from this have "Quorum clus = 3" by (simp add: Quorum_def)
  ultimately show ?thesis using node_step_active [OF c(3)] c by auto
qed

end
