(* ===== verification/WebReply.thy ===== *)
theory WebReply
  imports WebServing
begin

text \<open>The shape of the replies of \<open>/client-request\<close>, and what they echo of the request.\<close>

section \<open>The replies\<close>

definition reply_ok :: "ClientResponse \<Rightarrow> bool" where
  "reply_ok r = (if Success r
     then length (ResultLines r) = (if Action (RespRequest r) = ''delete'' then length (KeyValues r)
            else max 1 (length (KeyValues r)))
     else ResultLines r = [Result r] \<or> Action (RespRequest r) = ''delete'' \<and> ResultLines r = [])"

lemma reject_ok [simp]: "reply_ok (reject msg cresp)" "RespRequest (reject msg cresp) = RespRequest cresp"
  by (simp_all add: reply_ok_def reject_def)

text \<open>What holds of every reply to the request \<open>creq\<close>.\<close>

definition answers :: "ClientRequest \<Rightarrow> ClientResponse handled \<Rightarrow> bool" where
  "answers creq h = (case h of Replied resp e \<Rightarrow> reply_ok resp \<and> RespRequest resp = creq | _ \<Rightarrow> True)"

definition fresh_response :: "ClientRequest \<Rightarrow> ClientResponse" where
  "fresh_response creq = new_response\<lparr>RespRequest := creq\<rparr>"

lemma fresh_simps [simp]:
  "RespRequest (fresh_response creq) = creq" "Success (fresh_response creq)" "KeyValues (fresh_response creq) = []"
  "ResultLines (fresh_response creq) = []"
  by (simp_all add: fresh_response_def new_response_def)

lemma answers_simps [simp]:
  "answers creq (Replied resp e) = (reply_ok resp \<and> RespRequest resp = creq)"
  "answers creq NotAllowed" "answers creq (Failed err)" "answers creq (Crashed p)"
  by (simp_all add: answers_def)

lemma with_client_answers:
  "answers creq rest \<Longrightarrow> answers creq (with_client rw clus creq' (fresh_response creq) rest)"
  by (auto simp: with_client_def split: outcome.split option.split)

lemma write_answers:
  assumes "Action creq = ''write''" shows "answers creq (write_action rw clus creq (fresh_response creq))"
proof (cases "Key (ReqKeyValue creq) = []")
  case False
  then show ?thesis unfolding write_action_def Let_def
    by (auto intro!: with_client_answers simp: reply_ok_def assms Suc_le_eq reject_def split: option.split prod.split)
qed (simp add: write_action_def)

lemma delete_answers:
  assumes "Action creq = ''delete''" shows "answers creq (delete_action rw clus creq (fresh_response creq))"
proof (cases "Key (ReqKeyValue creq) = []")
  case False
  then show ?thesis unfolding delete_action_def Let_def
    by (auto intro!: with_client_answers simp: reply_ok_def assms Suc_le_eq reject_def split: option.split prod.split)
qed (simp add: delete_action_def)

lemma get_answers:
  assumes "Action creq = ''get''" shows "answers creq (get_action rw clus creq (fresh_response creq))"
proof (cases "Key (ReqKeyValue creq) = []")
  case False
  then show ?thesis unfolding get_action_def Let_def
    by (auto intro!: with_client_answers simp: reply_ok_def assms Suc_le_eq reject_def split: option.split prod.split)
qed (simp add: get_action_def)

lemma stress_lines_length: "stress_lines n kvs = Returns ls \<Longrightarrow> length ls = n \<and> n \<le> length kvs"
  by (induction n kvs arbitrary: ls rule: stress_lines.induct) (auto split: outcome.splits)

lemma stress_answers:
  assumes "Action creq = ''stress''" "stress_action rw clus creq (fresh_response creq) = Some h"
  shows "answers creq h"
proof (cases "with_client rw clus creq (fresh_response creq) NotAllowed")
  case NotAllowed
  obtain q where q: "multiRandKeyValues (sources rw) ''foo'' ''bar'' 3 3 = Some q"
    using assms(2) NotAllowed by (auto simp: stress_action_def split: option.splits)
  then obtain a b c where "q = Returns [a, b, c]" using pairs_length by blast
  then show ?thesis using assms NotAllowed q stress_lines_length
    by (auto simp: stress_action_def Let_def reply_ok_def reject_def split: option.splits outcome.splits)
next
  case (Replied resp e)
  then show ?thesis using assms(2) with_client_answers [of creq NotAllowed rw clus creq]
    by (simp add: stress_action_def)
next
  case (Failed err)
  show ?thesis using assms(2) unfolding stress_action_def Failed by auto
next
  case (Crashed p)
  show ?thesis using assms(2) unfolding stress_action_def Crashed by auto
qed

lemma limit_answers:
  "stop_restart_limit name rw (fresh_response creq) w = Inl h \<Longrightarrow> answers creq h"
  by (auto simp: stop_restart_limit_def split: outcome.splits if_splits)

lemma stop_answers:
  assumes "Action creq = ''stop-node''" "stop_action rw clus i (fresh_response creq) w = (w', evs, h)"
  shows "answers creq h"
  using assms limit_answers [of "''stop-node''" rw creq w]
  by (auto simp: stop_action_def reply_ok_def reject_def Let_def split: sum.splits if_splits outcome.splits prod.splits)

lemma restart_answers:
  assumes "Action creq = ''restart-node''" "restart_action rw clus i (fresh_response creq) w = (w', evs, h)"
  shows "answers creq h"
  using assms limit_answers [of "''restart-node''" rw creq w]
  by (auto simp: restart_action_def reply_ok_def reject_def Let_def split: sum.splits if_splits outcome.splits prod.splits option.splits)

lemma dispatch_answers:
  assumes "dispatch rw clus i creq (fresh_response creq) w = Some (w', evs, h)"
  shows "answers creq h"
proof -
  consider "Action creq = ''write''" | "Action creq = ''stress''" | "Action creq = ''delete''" | "Action creq = ''get''"
    | "Action creq = ''stop-node''" | "Action creq = ''restart-node''"
    | "Action creq \<notin> {''write'', ''stress'', ''delete'', ''get'', ''stop-node'', ''restart-node''}" by blast
  then show ?thesis
    using assms stress_answers stop_answers restart_answers write_answers delete_answers get_answers
    by cases (auto simp: dispatch_def)
qed

lemma clientRequest_reply:
  assumes "clientRequestHandler rw req w = Some (w', evs, Replied resp e)"
  shows "reply_ok resp \<and> (RespRequest resp = zero_request
    \<or> (\<exists>creq. body rw = Inr creq \<and> RespRequest resp = escape_request creq))"
proof -
  have d: "reply_ok resp \<and> RespRequest resp = creq"
    if "dispatch rw clus i creq (fresh_response creq) v = Some (v', evs', Replied resp e')" for clus i creq v v' evs' e'
    using dispatch_answers [OF that] by simp
  show ?thesis using assms d [unfolded fresh_response_def new_response_def, simplified]
    by (auto simp: clientRequestHandler_def Let_def new_response_def
        split: if_splits outcome.splits sum.splits list.splits option.splits prod.splits)
qed

text \<open>The request echoed: the escaped one once the limiter has let it pass and it has been decoded.\<close>

lemma clientRequest_echo:
  assumes "clientRequestHandler rw req w = Some (w', evs, Replied resp e)"
  shows "RespRequest resp =
    (if \<exists>msg. Check (clientRequestLimiter w) (check_case rw) (check_at rw) = Returns (msg, True)
     then (case body rw of Inl err \<Rightarrow> zero_request | Inr creq \<Rightarrow> escape_request creq)
     else zero_request)"
proof -
  have d: "RespRequest resp = creq"
    if "dispatch rw clus i creq (fresh_response creq) v = Some (v', evs', Replied resp e')" for clus i creq v v' evs' e'
    using dispatch_answers [OF that] by simp
  show ?thesis using assms d [unfolded fresh_response_def new_response_def, simplified]
    by (auto simp: clientRequestHandler_def Let_def new_response_def reject_def
        split: if_splits outcome.splits sum.splits list.splits option.splits prod.splits)
qed

end
