(* ===== verification/WebSample.thy ===== *)
theory WebSample
  imports WebReach WebReply
begin

text \<open>A sample process: the five servers start, the first is elected, requests are made by \<open>curl\<close>.\<close>

definition sample_start_world :: start_world where
  "sample_start_world = \<lparr>start_env = sample_env, start_envs = sample_envs, start_leads = sample_world,
     start_order = [4, 0, 2, 1, 3], wait_order = [2, 1, 0, 3, 4], temp_dir = Inr ''/tmp/cluster''\<rparr>"

definition sample_globals :: globals where
  "sample_globals = \<lparr>rootPort = 2389, web_of = \<lparr>userCache = Map.empty, visits = [], globalCluster = None,
     webserverPort = 0, clientRequestLimiter = NewRequestLimiter 0, stopRestartLimiter = NewRequestLimiter 0\<rparr>\<rparr>"

lemma sample_five:
  "\<exists>clus evs. Cluster_Start sample_env sample_envs sample_world [4, 0, 2, 1, 3] [2, 1, 0, 3, 4]
     (cluster_config ''/tmp/cluster'' 2389) = Some (Some clus, evs, Returns None) \<and> leaders (Members clus) = {0}"
proof -
  let ?c = "cluster_config ''/tmp/cluster'' 2389"
  obtain evs c0 where c0: "Start_configure sample_env ?c = (evs, Returns (Inr c0))"
    using Start_configure_result [of ?c sample_env]
    by (auto simp: cluster_config_def root_dir_def existFileOrDir_def sample_env_def TLS_Empty_def)
  have st: "\<forall>i<5. starts (sample_envs i) (Members c0 ! i) i"
    by (simp add: starts_def sample_envs_def sample_env_def)
  have inj: "inj_on (\<lambda>i. of_nat (257 + i) :: u64) {..<5}"
    by (rule inj_onI) (auto simp: word_of_nat_eq_iff take_bit_nat_eq_self simp del: of_nat_add)
  have "\<exists>clus evs. Cluster_Start sample_env sample_envs sample_world [4, 0, 2, 1, 3] [2, 1, 0, 3, 4] ?c
     = Some (Some clus, evs, Returns None) \<and> leaders (Members clus) = {0} \<and> LeadIdx clus = 0"
  proof (rule Start_elects [OF c0, where n = 5 and s = "\<lambda>i. i" and mid = "\<lambda>i. of_nat (257 + i)"])
    have "agrees (sample_world i) (map (\<lambda>i. of_nat (257 + i)) [0..<5]) (of_nat (257 + i)) 257" for i
      by (rule sample_agrees_any) (simp add: upt_rec)
    then show "\<forall>i<5. agrees (sample_world i) (map (\<lambda>i. of_nat (257 + i)) [0..<5]) (of_nat (257 + i)) (of_nat (257 + 0))"
      by simp
    show "set [4, 0, 2, 1, 3] = {..<5::nat}" "set [2, 1, 0, 3, 4] = {..<5::nat}" by (auto simp: numeral_eq_Suc less_Suc_eq)
  qed (use st inj in \<open>simp_all add: cluster_config_def TLS_Empty_def sample_envs_def sample_env_def\<close>)
  then show ?thesis by blast
qed

lemma sample_StartServer:
  "\<exists>g evs s. StartServer sample_start_world 2200 sample_globals = Some (g, evs, Returns (Inr s))"
  using sample_five
  by (auto simp: StartServer_def startCluster_def sample_start_world_def sample_globals_def Let_def)

lemma sample_fair_start: "fair_start sample_start_world sample_globals"
  by (auto simp: fair_start_def sample_start_world_def sample_globals_def numeral_eq_Suc less_Suc_eq)

lemma sample_serving: "\<exists>w. serving w"
proof -
  obtain g evs s where "StartServer sample_start_world 2200 sample_globals = Some (g, evs, Returns (Inr s))"
    using sample_StartServer by blast
  from serving.start [OF sample_fair_start this] show ?thesis by blast
qed

text \<open>A request for the key \<open>foo\<close>, as a function of the endpoint it is sent to, and the world it
  meets: etcd has the key, the limiter's wait is over.\<close>

definition sample_body :: "string \<Rightarrow> string \<Rightarrow> ClientRequest" where
  "sample_body action ep = \<lparr>Action = action, RangePrefix = False, ReqEndpoints = [ep],
     ReqKeyValue = \<lparr>Key = ''foo'', Value = []\<rparr>\<rparr>"

definition sample_req_world :: "ClientRequest \<Rightarrow> req_world" where
  "sample_req_world creq = \<lparr>check_case = WaitDone False, check_at = 0, advance_at = 0,
     check2_case = WaitDone False, check2_at = 0, advance2_at = 0, body = Inr creq,
     put = \<lambda>i k v. None, delete_rpc = \<lambda>k b. (Some [], None),
     get_rpc = \<lambda>k b. (Some [\<lparr>Key = k, Value = ''bar''\<rparr>], None),
     sources = \<lambda>j k. 0, elapsed = \<lambda>k. 2000000, write_err = None, cenv = sample_env\<rparr>"

definition sample_serve_world :: "ClientRequest \<Rightarrow> serve_world" where
  "sample_serve_world creq = \<lparr>stamp = ''2018-01-01 10:00:00'', now_at = 0,
     keys_of = \<lambda>w. sorted_list_of_set (dom (userCache w)), estimate_of = \<lambda>vs. 1,
     req_of = sample_req_world creq\<rparr>"

definition sample_request :: "string \<Rightarrow> string \<Rightarrow> request" where
  "sample_request m p = \<lparr>Method = m, Header = (\<lambda>k. []), RemoteAddr = ''10.0.0.1:5000'', Path = p\<rparr>"

lemma sample_fair: "fair_world (sample_serve_world creq)"
  by (simp add: fair_world_def sample_serve_world_def sample_req_world_def enumerates_def)

lemma sample_letters: "has_letters (sources (req_of (sample_serve_world creq)) j)"
  by (simp add: sample_serve_world_def sample_req_world_def has_letters_def idx_at_def)

lemma sample_simps [simp]:
  "req_of (sample_serve_world creq) = sample_req_world creq" "body (sample_req_world creq) = Inr creq"
  "get_rpc (sample_req_world creq) k b = (Some [\<lparr>Key = k, Value = ''bar''\<rparr>], None)"
  "delete_rpc (sample_req_world creq) k b = (Some [], None)"
  by (simp_all add: sample_serve_world_def sample_req_world_def)

lemma sample_not_lost: "\<not> lost_response (sample_serve_world creq) req"
  by (simp add: lost_response_def missing_response_def)

section \<open>Sample requests that find their member\<close>

lemma sample_endpoint:
  assumes "serving w"
  shows "\<exists>clus ep. globalCluster w = Some clus \<and> cluster_ready clus \<and> FindIndex clus ep = 0"
proof -
  obtain clus where c: "globalCluster w = Some clus" "cluster_ready clus" using serving_process_cluster [OF assms] .
  then have "cluster_inv clus" "0 < length (Members clus)" by (auto simp: cluster_ready_def cluster_inv_def)
  from FindIndex_member [OF this, of True] c show ?thesis by auto
qed

lemma sample_escape: "html_escape ''foo'' = ''foo''"
  by (simp add: html_escape_def html_escape_char_def)

lemma sample_get:
  assumes "serving w"
  shows "\<exists>ep w' evs resp. clientRequestHandler (sample_req_world (sample_body ''get'' ep))
     (sample_request ''POST'' ''/client-request'') w = Some (w', evs, Replied resp None)
     \<and> KeyValues resp = [\<lparr>Key = ''foo'', Value = ''bar''\<rparr>] \<and> Success resp
     \<and> Key (ReqKeyValue (RespRequest resp)) = ''foo''"
proof -
  obtain clus ep where c: "globalCluster w = Some clus" "cluster_ready clus" "FindIndex clus ep = 0"
    using sample_endpoint [OF assms] by blast
  let ?rw = "sample_req_world (sample_body ''get'' ep)" and ?creq = "escape_request (sample_body ''get'' ep)"
  have e: "ReqEndpoints ?creq = ep # []" "Key (ReqKeyValue ?creq) = ''foo''" "Action ?creq = ''get''"
    by (simp_all add: escape_request_def sample_body_def sample_escape)
  have "FindIndex clus ep \<noteq> - 1" using c(3) by simp
  note wc = with_client_ready [OF c(2) this e(1)]
  have "\<exists>resp. dispatch ?rw clus 0 ?creq (new_response\<lparr>RespRequest := ?creq\<rparr>) v = Some (v, [], Replied resp None)
      \<and> KeyValues resp = [\<lparr>Key = ''foo'', Value = ''bar''\<rparr>] \<and> Success resp
      \<and> Key (ReqKeyValue (RespRequest resp)) = ''foo''" for v
    using e by (simp add: dispatch_def get_action_def wc Let_def new_response_def sample_req_world_def)
  moreover have "Check (clientRequestLimiter w) (check_case ?rw) (check_at ?rw) = Returns (OkMessage, True)"
    by (simp add: Check_def sample_req_world_def)
  ultimately have "\<exists>w' evs resp. clientRequestHandler ?rw (sample_request ''POST'' ''/client-request'') w
       = Some (w', evs, Replied resp None)
     \<and> KeyValues resp = [\<lparr>Key = ''foo'', Value = ''bar''\<rparr>] \<and> Success resp
     \<and> Key (ReqKeyValue (RespRequest resp)) = ''foo''"
    using c e(1) by (simp add: clientRequestHandler_def Let_def sample_request_def) blast
  then show ?thesis by blast
qed

end
