(* ===== verification/WebTheorems.thy ===== *)
theory WebTheorems
  imports WebSample
begin

text \<open>
  The properties of the serving process: every request is answered and only a lost etcd response
  makes one panic, the process invariant, how far requests can bring the cluster down, the list of
  users, what the replies look like, what is echoed, and stopping the server twice.
\<close>

section \<open>Requests\<close>

text \<open>C5 (safety). In every state of a serving process, whatever requests were served before and
  however they were interleaved with the background rounds, every request to every path is
  answered and the process keeps serving; the only panic left is the nil dereference of a
  \<open>delete\<close> or \<open>get\<close> whose call to etcd returned no response.\<close>

theorem requests_are_answered:
  assumes "serving w" "fair_world sw" "\<forall>j. has_letters (sources (req_of sw) j)"
  shows "\<exists>w' evs r. serve sw req w = Some (w', evs, r) \<and> serving w'
     \<and> (\<forall>p. r = Served (Crashed p) \<longrightarrow> p = nil_panic \<and> lost_response sw req)"
proof -
  obtain w' evs r where s: "serve sw req w = Some (w', evs, r)"
    using serve_returns [OF assms(3)] by (metis not_None_eq prod_cases3)
  have "serving w'" using serving.step [OF assms(1) web_step.request [OF assms(2) s]] .
  then show ?thesis using s serve_ok [OF serving_inv [OF assms(1)] assms(2) s] by blast
qed

theorem requests_are_answered_witness:
  "\<exists>w w' evs r. serving w
     \<and> serve (sample_serve_world (sample_body ''get'' [])) (sample_request ''POST'' ''/client-request'') w = Some (w', evs, r)
     \<and> serving w' \<and> (\<forall>p. r \<noteq> Served (Crashed p))"
proof -
  obtain w where w: "serving w" using sample_serving by blast
  let ?sw = "sample_serve_world (sample_body ''get'' [])" and ?req = "sample_request ''POST'' ''/client-request''"
  have "\<forall>j. has_letters (sources (req_of ?sw) j)" using sample_letters by blast
  from requests_are_answered [OF w sample_fair this, of ?req] show ?thesis
    using w sample_not_lost by metis
qed

text \<open>C8 (invariant). A serving process has a cluster of five members, each with its server,
  satisfying the cluster's invariant; its user cache is finite and every id in it can be masked;
  both limiters answer.\<close>

theorem serving_process_invariant:
  assumes "serving w"
  shows "(\<exists>clus. globalCluster w = Some clus \<and> cluster_inv clus \<and> csize clus = 5 \<and> all_srv clus)
     \<and> finite (dom (userCache w)) \<and> (\<forall>u\<in>dom (userCache w). \<exists>m. maskUserID u = Returns m)
     \<and> (\<forall>l\<in>{clientRequestLimiter w, stopRestartLimiter w}. \<forall>fired t p. Check l fired t \<noteq> Panics p)"
proof -
  have inv: "web_inv w" using assms by (rule serving_inv)
  have "\<exists>m. maskUserID u = Returns m" if "u \<in> dom (userCache w)" for u
  proof -
    have "15 \<le> length u" using inv that by (simp add: web_inv_def cache_inv_def)
    then show ?thesis by (simp add: maskUserID_eq)
  qed
  moreover have "Check l fired t \<noteq> Panics p" if "l \<in> {clientRequestLimiter w, stopRestartLimiter w}" for l fired t p
    using limiter.check_returns [of l fired t] inv that by (auto simp: web_inv_def)
  ultimately show ?thesis using inv by (auto simp: web_inv_def cache_inv_def cluster_ready_def)
qed

theorem serving_process_invariant_witness:
  "\<exists>w clus. serving w \<and> globalCluster w = Some clus \<and> csize clus = 5"
proof -
  obtain w where w: "serving w" using sample_serving by blast
  from serving_process_invariant [OF w] w show ?thesis by blast
qed

text \<open>C6 (safety). However many requests are served, of whatever kind, each one changes the cluster
  by at most one guarded stop or one restart, so the number of active nodes never falls below two
  unless it was already below: a \<open>stop-node\<close> is only carried out while three of the five are
  active. (The guard protects the quorum only from being lost further: it lets the third-last
  node stop.)\<close>

theorem requests_leave_two_nodes:
  assumes "serving w" "request_step\<^sup>*\<^sup>* w w'"
  shows "\<exists>clus clus'. globalCluster w = Some clus \<and> globalCluster w' = Some clus'
     \<and> min (ActiveNodeN clus) 2 \<le> ActiveNodeN clus'"
  using assms(2)
proof (induction rule: rtranclp_induct)
  case base
  obtain clus where "globalCluster w = Some clus" using serving_process_cluster [OF assms(1)] .
  then show ?case by auto
next
  case (step v v')
  have "serving v" using step.hyps(1) by (rule serving_requests [OF assms(1)])
  from request_step_active [OF this step.hyps(2)] step.IH show ?case by fastforce
qed

theorem requests_leave_two_nodes_witness:
  "\<exists>w w' clus clus'. request_step w w' \<and> globalCluster w = Some clus \<and> globalCluster w' = Some clus'
     \<and> min (ActiveNodeN clus) 2 \<le> ActiveNodeN clus'"
proof -
  obtain w where w: "serving w" using sample_serving by blast
  let ?sw = "sample_serve_world (sample_body ''get'' [])" and ?req = "sample_request ''POST'' ''/client-request''"
  obtain w' evs r where "serve ?sw ?req w = Some (w', evs, r)"
    using serve_returns [of ?sw ?req w] sample_letters by (metis not_None_eq prod_cases3)
  then have r: "request_step w w'" using sample_fair by (auto simp: request_step_def)
  then have "request_step\<^sup>*\<^sup>* w w'" by (rule r_into_rtranclp)
  from requests_leave_two_nodes [OF w this] r show ?thesis by blast
qed

section \<open>The list of users\<close>

text \<open>C14 (bounds). \<open>getUserIDs\<close> returns the masked ids sorted, all of them as long as there are at
  most 21, and 21 of them when there are more: one above the maximum of 20 that its documentation
  gives. \<open>UserN\<close> still counts every user.\<close>

theorem user_list_has_at_most_21:
  assumes "enumerates keys w" "cache_inv w"
  shows "\<exists>ids. getUserIDs keys = Returns ids \<and> sorted ids
     \<and> length ids = min (card (dom (userCache w))) 21
     \<and> (\<forall>m\<in>set ids. \<exists>u\<in>dom (userCache w). maskUserID u = Returns m)
     \<and> getUserIDsN keys = card (dom (userCache w))"
proof -
  let ?mask = "\<lambda>k. case maskUserID k of Returns m \<Rightarrow> m | Panics p \<Rightarrow> []"
  have keys: "set keys = dom (userCache w)" "length keys = card (dom (userCache w))"
    using assms(1) distinct_card [of keys] by (auto simp: enumerates_def)
  have long: "9 \<le> length k" if "k \<in> set keys" for k
    using that keys(1) assms(2) le_trans [of 9 15 "length k"] by (auto simp: cache_inv_def)
  then have c: "collect_ids keys [] = Returns (map ?mask (take 21 keys))"
    using collect_ids_eq [of keys "[]"] by simp
  have mask: "maskUserID k = Returns (?mask k)" if "k \<in> set keys" for k
    using long [OF that] by (simp add: maskUserID_eq)
  have "\<exists>u\<in>dom (userCache w). maskUserID u = Returns m" if "m \<in> set (map ?mask (take 21 keys))" for m
    using that mask keys(1) by (fastforce dest: in_set_takeD)
  then show ?thesis using c keys(2)
    by (intro exI [of _ "sort (map ?mask (take 21 keys))"]) (simp add: getUserIDs_def getUserIDsN_def)
qed

text \<open>A cache with 22 users.\<close>

definition sample_keys :: "string list" where
  "sample_keys = map (\<lambda>i. replicate (15 + i) CHR ''a'') [0..<22]"

definition crowded_web :: web where
  "crowded_web = (web_of sample_globals)\<lparr>userCache := (\<lambda>k. if k \<in> set sample_keys then Some 0 else None)\<rparr>"

lemma crowded:
  "enumerates sample_keys crowded_web" "cache_inv crowded_web" "card (dom (userCache crowded_web)) = 22"
proof -
  have d: "distinct sample_keys"
    by (auto simp: sample_keys_def distinct_map inj_on_def)
  have dom: "dom (userCache crowded_web) = set sample_keys"
    by (auto simp: crowded_web_def split: if_splits)
  show "enumerates sample_keys crowded_web" using d dom by (simp add: enumerates_def)
  show "cache_inv crowded_web" by (auto simp: cache_inv_def dom sample_keys_def)
  show "card (dom (userCache crowded_web)) = 22" using distinct_card [OF d] by (simp add: dom sample_keys_def)
qed

theorem user_list_has_at_most_21_witness:
  "\<exists>ids. getUserIDs sample_keys = Returns ids \<and> length ids = 21 \<and> getUserIDsN sample_keys = 22"
  using user_list_has_at_most_21 [OF crowded(1,2)] crowded(3) by auto

section \<open>Replies\<close>

text \<open>C13 (type). Every reply of \<open>/client-request\<close> is well formed: a failure has exactly its message
  as its only line (or no line at all, if a \<open>delete\<close> failed), a success has a line for every key
  it returns, and one line when it returns none and is not a \<open>delete\<close>.\<close>

theorem client_replies_are_well_formed:
  assumes "clientRequestHandler rw req w = Some (w', evs, Replied resp e)"
  shows "reply_ok resp"
  using clientRequest_reply [OF assms] by blast

theorem client_replies_are_well_formed_witness:
  "\<exists>rw req w w' evs resp. clientRequestHandler rw req w = Some (w', evs, Replied resp None)
     \<and> reply_ok resp \<and> KeyValues resp = [\<lparr>Key = ''foo'', Value = ''bar''\<rparr>]"
proof -
  obtain w where w: "serving w" using sample_serving by blast
  obtain rw req w' evs resp where g: "clientRequestHandler rw req w = Some (w', evs, Replied resp None)"
    "KeyValues resp = [\<lparr>Key = ''foo'', Value = ''bar''\<rparr>]" using sample_get [OF w] by blast
  from client_replies_are_well_formed [OF g(1)] g show ?thesis by blast
qed

text \<open>C15 (safety). Every reply echoes a request. Its key and value contain no quote, no angle
  bracket and no NUL, whatever the client sent. If the limiter let the request pass and it was
  decoded, it is the client's, with action, prefix flag and endpoints as sent and key and value
  escaped, whatever the action and its outcome; a reply that rejects it earlier echoes the empty
  request.\<close>

theorem echoed_pair_is_escaped:
  assumes "clientRequestHandler rw req w = Some (w', evs, Replied resp e)"
  shows "(\<forall>c \<in> set (Key (ReqKeyValue (RespRequest resp))) \<union> set (Value (ReqKeyValue (RespRequest resp))).
        c \<notin> {CHR 0x22, CHR 0x27, CHR ''<'', CHR ''>'', CHR 0x00})
    \<and> (if \<exists>msg. Check (clientRequestLimiter w) (check_case rw) (check_at rw) = Returns (msg, True)
       then (case body rw of
           Inl err \<Rightarrow> RespRequest resp = zero_request
         | Inr creq \<Rightarrow> Action (RespRequest resp) = Action creq \<and> RangePrefix (RespRequest resp) = RangePrefix creq
             \<and> ReqEndpoints (RespRequest resp) = ReqEndpoints creq
             \<and> Key (ReqKeyValue (RespRequest resp)) = html_escape (Key (ReqKeyValue creq))
             \<and> Value (ReqKeyValue (RespRequest resp)) = html_escape (Value (ReqKeyValue creq)))
       else RespRequest resp = zero_request)"
proof -
  have esc: "Key (ReqKeyValue (escape_request creq)) = html_escape (Key (ReqKeyValue creq))"
    "Value (ReqKeyValue (escape_request creq)) = html_escape (Value (ReqKeyValue creq))" for creq
    by (simp_all add: escape_request_def html_escape_def)
  note echo = clientRequest_echo [OF assms]
  have "RespRequest resp = zero_request \<or> (\<exists>creq. RespRequest resp = escape_request creq)"
    using echo by (auto split: if_splits sum.splits)
  then have "\<forall>c \<in> set (Key (ReqKeyValue (RespRequest resp))) \<union> set (Value (ReqKeyValue (RespRequest resp))).
        c \<notin> {CHR 0x22, CHR 0x27, CHR ''<'', CHR ''>'', CHR 0x00}"
    using html_escape_safe esc by (fastforce simp: zero_request_def)
  then show ?thesis using echo esc by (auto simp: escape_request_def split: sum.splits)
qed

theorem echoed_pair_is_escaped_witness:
  "\<exists>rw req w w' evs resp. clientRequestHandler rw req w = Some (w', evs, Replied resp None)
     \<and> Key (ReqKeyValue (RespRequest resp)) = ''foo''
     \<and> CHR ''<'' \<notin> set (Key (ReqKeyValue (RespRequest resp)))"
proof -
  obtain w where w: "serving w" using sample_serving by blast
  obtain rw req w' evs resp where g: "clientRequestHandler rw req w = Some (w', evs, Replied resp None)"
    "Key (ReqKeyValue (RespRequest resp)) = ''foo''" using sample_get [OF w] by blast
  from echoed_pair_is_escaped [OF g(1)] have "CHR ''<'' \<notin> set (Key (ReqKeyValue (RespRequest resp)))" by blast
  with g show ?thesis by blast
qed

section \<open>Lost responses\<close>

text \<open>C17 (error). A \<open>get\<close> or \<open>delete\<close> that passes the limiter and names a member, and whose call to
  etcd fails without a response, does not report the error it was given: it panics on the nil
  response, after the limiter was advanced.\<close>

theorem lost_response_panics:
  assumes "serving w" "Method req = ''POST''"
    and "Check (clientRequestLimiter w) (check_case rw) (check_at rw) = Returns (OkMessage, True)"
    and "body rw = Inr creq" "Action creq \<in> {''get'', ''delete''}" "Key (ReqKeyValue creq) \<noteq> []"
    and "ReqEndpoints creq = ep # eps" "globalCluster w = Some clus" "FindIndex clus ep \<noteq> - 1"
    and "get_rpc rw (html_escape (Key (ReqKeyValue creq))) (RangePrefix creq) = (None, Some err)"
    and "delete_rpc rw (html_escape (Key (ReqKeyValue creq))) (RangePrefix creq) = (None, Some err)"
  shows "clientRequestHandler rw req w
     = Some (w\<lparr>clientRequestLimiter := Advance (advance_at rw) (clientRequestLimiter w)\<rparr>, [], Crashed nil_panic)"
proof -
  let ?creq = "escape_request creq"
  have r: "cluster_ready clus" using web_inv_cluster [OF serving_inv [OF assms(1)]] assms(8) by fastforce
  have e: "ReqEndpoints ?creq = ep # eps" "Action ?creq = Action creq" "RangePrefix ?creq = RangePrefix creq"
    "Key (ReqKeyValue ?creq) = html_escape (Key (ReqKeyValue creq))"
    using assms(6,7) by (simp_all add: escape_request_def)
  note wc = with_client_ready [OF r assms(9) e(1)]
  have "dispatch rw clus (FindIndex clus ep) ?creq (new_response\<lparr>RespRequest := ?creq\<rparr>) v = Some (v, [], Crashed nil_panic)" for v
    using assms(5,6,10,11) e by (auto simp: dispatch_def get_action_def delete_action_def wc Let_def)
  then show ?thesis using assms(2-4,8,9) e(1) by (simp add: clientRequestHandler_def Let_def)
qed

theorem lost_response_panics_witness:
  "\<exists>rw req w w'. serving w \<and> clientRequestHandler rw req w = Some (w', [], Crashed nil_panic)"
proof -
  obtain w where w: "serving w" using sample_serving by blast
  obtain clus ep where c: "globalCluster w = Some clus" "cluster_ready clus" "FindIndex clus ep = 0"
    using sample_endpoint [OF w] by blast
  let ?b = "sample_body ''get'' ep" and ?lost = "\<lambda>(k::string) (b::bool). (None, Some ''timeout'')"
  let ?rw = "(sample_req_world ?b)\<lparr>get_rpc := ?lost, delete_rpc := ?lost\<rparr>"
  have "clientRequestHandler ?rw (sample_request ''POST'' ''/client-request'') w
     = Some (w\<lparr>clientRequestLimiter := Advance (advance_at ?rw) (clientRequestLimiter w)\<rparr>, [], Crashed nil_panic)"
    by (rule lost_response_panics [OF w, where creq = ?b and ep = ep and eps = "[]" and clus = clus and err = "''timeout''"])
      (use c in \<open>simp_all add: sample_request_def sample_req_world_def sample_body_def Check_def\<close>)
  with w show ?thesis by blast
qed

end
