(* ===== verification/WebStop.thy ===== *)
theory WebStop
  imports WebSample
begin

text \<open>
  Stopping the server: the first \<open>Stop\<close> of a started server shuts the cluster down, the second
  panics, the third blocks; and \<open>main\<close>, which is woken by the first, makes the second.
\<close>

section \<open>A started cluster can be shut down\<close>

lemma build_loop_open: "stopcClosed (fst (build_loop E c n clus port)) = stopcClosed clus"
  by (induction E c n clus port rule: build_loop.induct) (auto simp: Let_def split: prod.split)

lemma set_initial_open: "stopcClosed (fst (set_initial n i clus)) = stopcClosed clus"
  by (induction n i clus rule: set_initial.induct) (auto split: outcome.split)

lemma scan_leaders_open: "stopcClosed (fst (scan_leaders E i found ms clus)) = stopcClosed clus"
  by (induction E i found ms clus rule: scan_leaders.induct) (auto split: option.splits)

lemma Start_configure_open:
  assumes "Start_configure E c = (evs, Returns (Inr clus))" shows "\<not> stopcClosed clus"
proof -
  let ?n = "nat (Config_Size c)"
  obtain b port evs1 where b: "build_loop E c ?n (empty_cluster E c) (RootPort c) = (b, port, evs1)"
    by (cases "build_loop E c ?n (empty_cluster E c) (RootPort c)")
  have "fst (set_initial ?n 0 (b\<lparr>basePort := port\<rparr>)) = clus"
    using assms b
    by (auto simp: Start_configure_def split: if_splits prod.splits option.splits outcome.splits)
  then show ?thesis
    using set_initial_open [of ?n 0 "b\<lparr>basePort := port\<rparr>"] build_loop_open [of E c ?n "empty_cluster E c" "RootPort c"] b
    by (auto simp: empty_cluster_def)
qed

lemma WaitForLeader_open:
  assumes "Cluster_WaitForLeader E Es ws order clus = Some r"
  shows "stopcClosed (fst r) = stopcClosed clus"
proof -
  let ?f = "\<lambda>i. Member_WaitForLeader (Es i) (ws i) clus"
  obtain q where "wait_group ?f order (Members clus) = Some q"
    using assms by (auto simp: Cluster_WaitForLeader_def split: option.splits)
  with assms scan_leaders_open [of E 0 False "fst q" "clus\<lparr>Members := fst q\<rparr>"] show ?thesis
    by (cases q) (auto simp: Cluster_WaitForLeader_def split: outcome.splits option.splits prod.splits)
qed

lemma Cluster_Start_open:
  assumes s: "Cluster_Start E Es ws order order' c = Some (Some clus, evs, r)"
  shows "\<not> stopcClosed clus"
proof -
  from s obtain c0 evs0 where s0: "Start_configure E c = (evs0, Returns (Inr c0))"
    by (auto simp: Cluster_Start_def split: prod.splits outcome.splits sum.splits)
  from s s0 obtain ms q where "Cluster_WaitForLeader E Es ws order' (c0\<lparr>Members := ms\<rparr>) = Some q" "fst q = clus"
    by (auto simp: Cluster_Start_def split: prod.splits outcome.splits option.splits)
  from WaitForLeader_open [OF this(1)] this(2) Start_configure_open [OF s0] show ?thesis by simp
qed

lemma Shutdown_returns:
  assumes "all_srv clus" "\<not> stopcClosed clus" "distinct order" "set order \<subseteq> {..<length (Members clus)}"
  shows "\<exists>clus' evs. Cluster_Shutdown Es order clus = (clus', evs, Returns ())"
proof -
  have "\<exists>r. snd (snd (Stop_group Es i m)) = Returns r" if "m \<in> set (Members clus)" for i m
  proof -
    have "srv m \<noteq> None" using assms(1) that by (simp add: all_srv_def del: not_None_eq)
    then obtain s where "srv m = Some s" by blast
    then show ?thesis by (simp add: Stop_group_def Member_Stop_def)
  qed
  then have "\<exists>r. snd (snd (Stop_group Es i (Members clus ! i))) = Returns r" if "i \<in> set order" for i
    using that assms(4) by (meson lessThan_iff nth_mem subsetD)
  then have "\<forall>i\<in>set order. \<not> panics_in (Stop_group Es) (Members clus) i"
    by (fastforce simp: panics_in_def)
  from go_group_pointwise [OF assms(3,4) this] obtain ms evs r
    where "go_group (Stop_group Es) order (Members clus) = (ms, evs, Returns r)"
    by (cases "go_group (Stop_group Es) order (Members clus)") auto
  then show ?thesis using assms(2) by (simp add: Cluster_Shutdown_def Let_def)
qed

text \<open>\<open>Shutdown\<close> cancels the root context whether or not it has been.\<close>

lemma Shutdown_canceled:
  assumes "\<not> stopcClosed clus"
  shows "Cluster_Shutdown Es order (clus\<lparr>rootCanceled := True\<rparr>) = Cluster_Shutdown Es order clus"
  using assms by (simp add: Cluster_Shutdown_def Let_def split: prod.split)

section \<open>Stopping\<close>

text \<open>C16 (error). \<open>Stop\<close> of a started server shuts the cluster down and returns, leaving no cluster; a
  second \<open>Stop\<close> panics on the closed channel and leaves the mutex locked, so a third never
  returns. \<open>main\<close> is woken by the stop notification and then always makes that second call: the
  process ends with the panic instead of a clean exit.\<close>

theorem second_stop_panics:
  assumes "fair_start st g0" "StartServer st port g0 = Some (g, evs, Returns (Inr s))"
    and "distinct order" "set order = {..<5}"
  shows "\<exists>s1 g1 evs1 s2. Server_Stop Es order s g = Some (s1, g1, evs1, Returns ())
     \<and> globalCluster (web_of g1) = None
     \<and> Server_Stop Es' order' s1 g1 = Some (s2, g1, [], Panics closed_panic)
     \<and> Server_Stop Es'' order'' s2 g1 = None
     \<and> main_run st port (\<lambda>s g. case Server_Stop Es order s g of None \<Rightarrow> (s, g) | Some (s', g', e, r) \<Rightarrow> (s', g'))
          False Es' order' g0 = Some (g1, Panics closed_panic)"
proof -
  obtain clus dir evs' where d: "Cluster_Start (start_env st) (start_envs st) (start_leads st) (start_order st)
      (wait_order st) (cluster_config dir (rootPort g0)) = Some (Some clus, evs', Returns None)"
    and w: "web_of g = (web_of g0)\<lparr>webserverPort := port, globalCluster := Some clus,
       clientRequestLimiter := NewRequestLimiter clientRequestIntervalLimit,
       stopRestartLimiter := NewRequestLimiter stopRestartIntervalLimit\<rparr>"
    and s: "httpServer s" "\<not> srvLocked s" "\<not> srvStopped s"
    by (rule StartServer_cluster [OF assms(2)])
  have c: "globalCluster (web_of g) = Some clus" by (simp add: w)
  have "cluster_ready clus" using StartServer_ok [OF assms(1,2)] c by (simp add: web_inv_def)
  then have "all_srv clus" "length (Members clus) = 5" by (auto simp: cluster_ready_def cluster_inv_def)
  then obtain clus' evs1 where sh: "Cluster_Shutdown Es order clus = (clus', evs1, Returns ())"
    using Shutdown_returns [of clus order Es] Cluster_Start_open [OF d] assms(3,4) by auto
  let ?s1 = "s\<lparr>srvStopped := True, srvDone := True\<rparr>" and ?g1 = "g\<lparr>web_of := (web_of g)\<lparr>globalCluster := None\<rparr>\<rparr>"
  have "Server_Stop Es order s g = Some (?s1, ?g1, evs1, Returns ())"
    using s c sh Shutdown_canceled [OF Cluster_Start_open [OF d]]
    by (simp add: Server_Stop_def serve_goroutine_def rootCancel_def)
  moreover have "Server_Stop Es' order' ?s1 ?g1 = Some (?s1\<lparr>srvLocked := True\<rparr>, ?g1, [], Panics closed_panic)"
    using s by (simp add: Server_Stop_def)
  moreover have "Server_Stop Es'' order'' (?s1\<lparr>srvLocked := True\<rparr>) ?g1 = None"
    by (simp add: Server_Stop_def)
  ultimately show ?thesis using assms(2)
    by (intro exI [of _ ?s1] exI [of _ ?g1] exI [of _ evs1] exI [of _ "?s1\<lparr>srvLocked := True\<rparr>"])
      (simp add: main_run_def main_wait_def Server_StopNotify_def)
qed

theorem second_stop_panics_witness:
  "\<exists>s g s1 g1 evs1 s2. Server_Stop sample_envs [0, 1, 2, 3, 4] s g = Some (s1, g1, evs1, Returns ())
     \<and> Server_Stop sample_envs [0, 1, 2, 3, 4] s1 g1 = Some (s2, g1, [], Panics closed_panic)
     \<and> Server_Stop sample_envs [] s2 g1 = None"
proof -
  obtain g evs s where "StartServer sample_start_world 2200 sample_globals = Some (g, evs, Returns (Inr s))"
    using sample_StartServer by blast
  note start = this
  have order: "set [0, 1, 2, 3, 4] = {..<5::nat}" by (auto simp: numeral_eq_Suc less_Suc_eq)
  have "distinct [0, 1, 2, 3, 4::nat]" by simp
  from second_stop_panics [OF sample_fair_start start this order, of sample_envs sample_envs
      "[0, 1, 2, 3, 4]" sample_envs "[]"] show ?thesis by blast
qed

end
