(* ===== verification/WebRace.thy ===== *)
theory WebRace
  imports WebSample
begin

text \<open>
  Overlapping \<open>stop-node\<close> requests. The handler takes no lock between reading \<open>ActiveNodeN\<close>,
  reading \<open>IsStopped\<close> and calling \<open>Stop\<close>, so requests interleave there. Each of those calls is
  taken as one step. \<open>k\<close> bounds how many requests are between the guard and their end.
\<close>

section \<open>The steps\<close>

datatype pc = Idle | Guarded int | Chosen int | Finished

record race =
  shared :: cluster
  pcs :: "nat \<Rightarrow> pc"

definition pending :: "race \<Rightarrow> nat set" where
  "pending s = {j. pcs s j \<noteq> Idle \<and> pcs s j \<noteq> Finished}"

definition goto :: "nat \<Rightarrow> pc \<Rightarrow> race \<Rightarrow> race" where
  "goto j p s = s\<lparr>pcs := (pcs s)(j := p)\<rparr>"

inductive race_step :: "nat \<Rightarrow> race \<Rightarrow> race \<Rightarrow> bool" for k where
  lost: "pcs s j = Idle \<Longrightarrow> ActiveNodeN (shared s) < Quorum (shared s) \<Longrightarrow> race_step k s (goto j Finished s)"
| guard: "pcs s j = Idle \<Longrightarrow> Quorum (shared s) \<le> ActiveNodeN (shared s) \<Longrightarrow> member_at (shared s) i \<noteq> None
     \<Longrightarrow> card (pending s) < k \<Longrightarrow> race_step k s (goto j (Guarded i) s)"
| stopped: "pcs s j = Guarded i \<Longrightarrow> IsStopped (shared s) i = Returns True \<Longrightarrow> race_step k s (goto j Finished s)"
| chosen: "pcs s j = Guarded i \<Longrightarrow> IsStopped (shared s) i = Returns False \<Longrightarrow> race_step k s (goto j (Chosen i) s)"
| stop: "pcs s j = Chosen i \<Longrightarrow> Cluster_Stop E i (shared s) = (clus', evs, Returns ())
     \<Longrightarrow> race_step k s (goto j Finished (s\<lparr>shared := clus'\<rparr>))"
| restart: "Cluster_Restart E i (shared s) = (clus', evs, Returns r) \<Longrightarrow> race_step k s (s\<lparr>shared := clus'\<rparr>)"

inductive_cases race_stepE: "race_step k s s'"

definition quiet :: "cluster \<Rightarrow> race" where
  "quiet clus = \<lparr>shared = clus, pcs = (\<lambda>j. Idle)\<rparr>"

section \<open>Each request in flight can take one node\<close>

definition race_inv :: "nat \<Rightarrow> nat \<Rightarrow> race \<Rightarrow> bool" where
  "race_inv k q s = (all_srv (shared s) \<and> Quorum (shared s) = q \<and> finite (pending s) \<and> card (pending s) \<le> k
     \<and> q + card (pending s) \<le> ActiveNodeN (shared s) + k)"

lemma goto_simps [simp]: "shared (goto j p s) = shared s" "pcs (goto j p s) j = p"
  by (simp_all add: goto_def)

lemma pending_goto:
  "pending (goto j p s) = (if p = Idle \<or> p = Finished then pending s - {j} else insert j (pending s))"
  by (auto simp: pending_def goto_def)

lemma pending_shared [simp]: "pending (s\<lparr>shared := c\<rparr>) = pending s"
  by (simp add: pending_def)

lemma in_pending: "pcs s j = Guarded i \<or> pcs s j = Chosen i \<Longrightarrow> j \<in> pending s"
  by (auto simp: pending_def)

lemma stop_takes_one:
  assumes "all_srv clus" "Cluster_Stop E i clus = (clus', evs, Returns ())"
  shows "all_srv clus' \<and> Quorum clus' = Quorum clus \<and> ActiveNodeN clus \<le> Suc (ActiveNodeN clus')"
proof (cases "member_at clus i")
  case None
  then show ?thesis using assms by (simp add: Cluster_Stop_def)
next
  case (Some m)
  obtain m' evs' where c: "Cluster_Stop E i clus = (set_member i m' clus, evs', Returns ())" "is_stopped m'"
    using ready_stop_eq [OF assms(1) Some] by blast
  have "all_srv clus'" using Cluster_Stop_srv [OF assms(1), of E i] assms(2) by simp
  moreover have "clus' = set_member i m' clus" using c(1) assms(2) by simp
  ultimately show ?thesis using ActiveNodeN_set_member [OF Some, of m'] c(2)
    by (simp split: if_splits)
qed

lemma restart_takes_none:
  assumes "all_srv clus" "Cluster_Restart E i clus = (clus', evs, Returns r)"
  shows "all_srv clus' \<and> Quorum clus' = Quorum clus \<and> ActiveNodeN clus \<le> ActiveNodeN clus'"
proof (cases "member_at clus i")
  case None
  then show ?thesis using assms by (simp add: Cluster_Restart_def)
next
  case (Some m)
  have "all_srv clus'" using Cluster_Restart_srv [OF assms(1), of E i] assms(2) by simp
  moreover have "Quorum clus' = Quorum clus \<and> ActiveNodeN clus \<le> ActiveNodeN clus'"
  proof (cases "is_stopped m")
    case True
    then show ?thesis using nodes.guarded_restart [OF assms(1), of i E] Some assms(2) by simp
  next
    case False
    then show ?thesis using Some assms(2) set_member_self [OF Some]
      by (auto simp: Cluster_Restart_def Member_Restart_def is_stopped_def split: option.splits)
  qed
  ultimately show ?thesis by simp
qed

lemma race_step_inv:
  assumes "race_step k s s'" "race_inv k q s" shows "race_inv k q s'"
  using assms(1)
proof cases
  case (lost j)
  then have "j \<notin> pending s" by (simp add: pending_def)
  then have "pending (goto j Finished s) = pending s" by (simp add: pending_goto)
  then show ?thesis using lost assms(2) by (simp add: race_inv_def)
next
  case (guard j i)
  then have "j \<notin> pending s" by (simp add: pending_def)
  then show ?thesis using guard assms(2) by (simp add: race_inv_def pending_goto)
next
  case (stopped j i)
  then have "j \<in> pending s" by (simp add: in_pending)
  then show ?thesis using stopped assms(2) by (auto simp: race_inv_def pending_goto card_Diff_singleton)
next
  case (chosen j i)
  then have "j \<in> pending s" by (simp add: in_pending)
  then show ?thesis using chosen assms(2) by (simp add: race_inv_def pending_goto insert_absorb)
next
  case (stop j i E clus' evs)
  then have j: "j \<in> pending s" by (simp add: in_pending)
  moreover have "0 < card (pending s)" using j assms(2) by (auto simp: race_inv_def card_gt_0_iff)
  ultimately show ?thesis using stop(1) stop_takes_one [OF _ stop(3)] assms(2)
    by (auto simp: race_inv_def pending_goto card_Diff_singleton)
next
  case (restart E i clus' evs r)
  then show ?thesis using restart_takes_none [OF _ restart(2)] assms(2) by (auto simp: race_inv_def)
qed

lemma races_inv: "(race_step k)\<^sup>*\<^sup>* s s' \<Longrightarrow> race_inv k q s \<Longrightarrow> race_inv k q s'"
  by (induction rule: rtranclp_induct) (auto dest: race_step_inv)

lemma quiet_inv:
  "all_srv clus \<Longrightarrow> Quorum clus \<le> ActiveNodeN clus + k \<Longrightarrow> race_inv k (Quorum clus) (quiet clus)"
  by (simp add: race_inv_def quiet_def pending_def)

section \<open>A handler alone is such a run\<close>

lemma race_runs:
  assumes "member_at clus i = Some m" "Quorum clus \<le> ActiveNodeN clus" "\<not> is_stopped m" "0 < k"
    and "Cluster_Stop E i clus = (clus', evs, Returns ())"
  shows "(race_step k)\<^sup>*\<^sup>* (quiet clus) (goto j Finished (quiet clus'))"
proof -
  let ?s = "quiet clus"
  have is_st: "IsStopped clus i = Returns False" using assms(1,3) by (simp add: IsStopped_def with_member_def)
  have "race_step k ?s (goto j (Guarded i) ?s)"
    by (rule race_step.guard) (use assms in \<open>simp_all add: quiet_def pending_def\<close>)
  moreover have "race_step k (goto j (Guarded i) ?s) (goto j (Chosen i) (goto j (Guarded i) ?s))"
    by (rule race_step.chosen [of _ j i]) (use is_st in \<open>simp_all add: quiet_def\<close>)
  moreover have "race_step k (goto j (Chosen i) (goto j (Guarded i) ?s)) (goto j Finished (quiet clus'))"
    using race_step.stop [of "goto j (Chosen i) (goto j (Guarded i) ?s)" j i E clus' evs k] assms(5)
    by (simp add: quiet_def goto_def)
  ultimately show ?thesis by (meson rtranclp.rtrancl_refl rtranclp.rtrancl_into_rtrancl)
qed

section \<open>Properties\<close>

text \<open>C33 (refinement). The handler's \<open>stop-node\<close>, once the limiter has granted it, is a run of these
  steps: what it does to the cluster is what its three calls do one after the other, whichever
  of them ends it, and the final state is one where only its own request has finished.\<close>

theorem stop_request_is_a_run:
  assumes "web_inv w" "globalCluster w = Some clus" "FindIndex clus ep \<noteq> - 1" "0 < k"
    and "stop_restart_limit ''stop-node'' rw cresp w = Inr w1"
    and "stop_action rw clus (FindIndex clus ep) cresp w = (w', evs, res)"
  shows "\<exists>clus'. globalCluster w' = Some clus' \<and> (race_step k)\<^sup>*\<^sup>* (quiet clus) (goto j Finished (quiet clus'))"
proof -
  let ?i = "FindIndex clus ep"
  have r: "cluster_ready clus" using assms(1,2) by (simp add: web_inv_def)
  from ready_find [OF r assms(3)] obtain m sv where m: "member_at clus ?i = Some m" "srv m = Some sv" .
  have st: "Cluster_MemberStatus clus ?i = Returns (status m)" "IsStopped clus ?i = Returns (is_stopped m)"
    using m by (simp_all add: Cluster_MemberStatus_def IsStopped_def with_member_def)
  have w1: "globalCluster w1 = Some clus"
    using assms(2,5) by (auto simp: stop_restart_limit_def split: outcome.splits if_splits)
  consider "ActiveNodeN clus < Quorum clus" | "Quorum clus \<le> ActiveNodeN clus" "is_stopped m"
    | "Quorum clus \<le> ActiveNodeN clus" "\<not> is_stopped m" by linarith
  then show ?thesis
  proof cases
    case 1
    then have "race_step k (quiet clus) (goto j Finished (quiet clus))"
      by (intro race_step.lost) (simp_all add: quiet_def)
    moreover have "w' = w1" using assms(5,6) 1 by (simp add: stop_action_def)
    ultimately show ?thesis using w1 by blast
  next
    case 2
    have "race_step k (quiet clus) (goto j (Guarded ?i) (quiet clus))"
      by (rule race_step.guard) (use 2 m assms(4) in \<open>simp_all add: quiet_def pending_def\<close>)
    moreover have "race_step k (goto j (Guarded ?i) (quiet clus)) (goto j Finished (goto j (Guarded ?i) (quiet clus)))"
      by (rule race_step.stopped [of _ j ?i]) (use 2 st in \<open>simp_all add: quiet_def\<close>)
    ultimately have "(race_step k)\<^sup>*\<^sup>* (quiet clus) (goto j Finished (goto j (Guarded ?i) (quiet clus)))"
      by (meson rtranclp.rtrancl_refl rtranclp.rtrancl_into_rtrancl)
    moreover have "goto j Finished (goto j (Guarded ?i) (quiet clus)) = goto j Finished (quiet clus)"
      by (simp add: goto_def)
    moreover have "w' = w1" using assms(5,6) 2 st by (simp add: stop_action_def)
    ultimately show ?thesis using w1 by auto
  next
    case 3
    then obtain m' where c: "Cluster_Stop (cenv rw) ?i clus = (set_member ?i m' clus, [CloseEtcd sv], Returns ())"
      using Cluster_Stop_running [OF m] by blast
    have "Cluster_MemberStatus (set_member ?i m' clus) ?i = Returns (status m')"
      by (simp add: Cluster_MemberStatus_def with_member_def member_at_set_member [OF m(1)])
    then have "globalCluster w' = Some (set_member ?i m' clus)"
      using assms(5,6) 3 st c by (auto simp: stop_action_def Let_def)
    then show ?thesis using race_runs [OF m(1) 3 assms(4) c] by blast
  qed
qed

theorem stop_request_is_a_run_witness:
  "\<exists>clus clus'. Quorum clus = 3 \<and> (race_step 1)\<^sup>*\<^sup>* (quiet clus) (goto 0 Finished (quiet clus'))"
proof -
  obtain w where w: "serving w" using sample_serving by blast
  obtain clus ep where c: "globalCluster w = Some clus" "cluster_ready clus" "FindIndex clus ep = 0"
    using sample_endpoint [OF w] by blast
  let ?rw = "sample_req_world (sample_body ''stop-node'' ep)"
  have l: "\<exists>w1. stop_restart_limit ''stop-node'' ?rw new_response w = Inr w1"
    by (simp add: stop_restart_limit_def sample_req_world_def Check_def)
  then obtain w1 where l: "stop_restart_limit ''stop-node'' ?rw new_response w = Inr w1" by blast
  obtain w' evs res where s: "stop_action ?rw clus (FindIndex clus ep) new_response w = (w', evs, res)"
    by (cases "stop_action ?rw clus (FindIndex clus ep) new_response w")
  have "length (Members clus) = 5" using c(2) by (auto simp: cluster_ready_def cluster_inv_def)
  then have "Quorum clus = 3" by (simp add: Quorum_def)
  moreover have "FindIndex clus ep \<noteq> - 1" using c(3) by simp
  from stop_request_is_a_run [OF serving_inv [OF w] c(1) this _ l s, of 1 0]
  have "\<exists>clus'. (race_step 1)\<^sup>*\<^sup>* (quiet clus) (goto 0 Finished (quiet clus'))" by auto
  ultimately show ?thesis by blast
qed

text \<open>C7 (safety). If never more than \<open>k\<close> \<open>stop-node\<close> requests are between their guard and their
  end, the number of active nodes never falls more than \<open>k\<close> below the quorum, whatever the
  interleaving and the restarts in between. One request at a time keeps all but one of the
  quorum; and the bound is reached: with two at a time, two of the three members of the sample
  cluster's last quorum are stopped.\<close>

theorem overlapping_stops_are_bounded:
  assumes "all_srv clus" "Quorum clus \<le> ActiveNodeN clus + k" "(race_step k)\<^sup>*\<^sup>* (quiet clus) s"
  shows "Quorum clus \<le> ActiveNodeN (shared s) + k"
  using races_inv [OF assms(3) quiet_inv [OF assms(1,2)]] by (simp add: race_inv_def)

text \<open>Two requests, numbered 0 and 1.\<close>

definition two_at :: "cluster \<Rightarrow> pc \<Rightarrow> pc \<Rightarrow> race" where
  "two_at c p p' = \<lparr>shared = c, pcs = (\<lambda>j. if j = 0 then p else if j = 1 then p' else Idle)\<rparr>"

lemma two_at_simps [simp]:
  "shared (two_at c x y) = c" "pcs (two_at c x y) 0 = x" "pcs (two_at c x y) (Suc 0) = y"
  "goto 0 p (two_at c x y) = two_at c p y" "goto (Suc 0) p (two_at c x y) = two_at c x p"
  "(two_at c x y)\<lparr>shared := d\<rparr> = two_at d x y"
  by (auto simp: two_at_def goto_def)

lemma two_at_pending [simp]: "pending (two_at c Idle Idle) = {}" "pending (two_at c (Guarded i) Idle) = {0}"
  by (auto simp: two_at_def pending_def split: if_splits)

lemma two_at_quiet: "quiet clus = two_at clus Idle Idle"
  by (auto simp: two_at_def quiet_def)

lemma two_overlap:
  assumes srv: "all_srv clus" and q: "Quorum clus \<le> ActiveNodeN clus"
    and m: "member_at clus i = Some m" "\<not> is_stopped m" and n: "member_at clus i' = Some n" "\<not> is_stopped n"
    and ne: "i \<noteq> i'"
  shows "\<exists>s. (race_step 2)\<^sup>*\<^sup>* (quiet clus) s \<and> ActiveNodeN (shared s) + 2 = ActiveNodeN clus"
proof -
  obtain m' evs where c1: "Cluster_Stop E i clus = (set_member i m' clus, evs, Returns ())" "is_stopped m'"
    using ready_stop_eq [OF srv m(1)] by blast
  let ?c1 = "set_member i m' clus"
  have srv1: "all_srv ?c1" using Cluster_Stop_srv [OF srv, of E i] c1(1) by simp
  have n1: "member_at ?c1 i' = Some n" using member_at_set_member [OF m(1), of m' i'] n(1) ne by simp
  obtain n' evs' where c2: "Cluster_Stop E i' ?c1 = (set_member i' n' ?c1, evs', Returns ())" "is_stopped n'"
    using ready_stop_eq [OF srv1 n1] by blast
  have active: "ActiveNodeN (set_member i' n' ?c1) + 2 = ActiveNodeN clus"
    using ActiveNodeN_set_member [OF m(1), of m'] ActiveNodeN_set_member [OF n1, of n'] m(2) n(2) c1(2) c2(2) by simp
  have st: "IsStopped clus i = Returns False" "IsStopped clus i' = Returns False"
    using m n by (simp_all add: IsStopped_def with_member_def)
  let ?at = two_at
  have "race_step 2 (?at clus Idle Idle) (?at clus (Guarded i) Idle)"
    using race_step.guard [of "?at clus Idle Idle" 0 i 2] q m(1) by simp
  moreover have "race_step 2 (?at clus (Guarded i) Idle) (?at clus (Guarded i) (Guarded i'))"
    using race_step.guard [of "?at clus (Guarded i) Idle" 1 i' 2] q n(1) by simp
  moreover have "race_step 2 (?at clus (Guarded i) (Guarded i')) (?at clus (Chosen i) (Guarded i'))"
    using race_step.chosen [of "?at clus (Guarded i) (Guarded i')" 0 i 2] st(1) by simp
  moreover have "race_step 2 (?at clus (Chosen i) (Guarded i')) (?at clus (Chosen i) (Chosen i'))"
    using race_step.chosen [of "?at clus (Chosen i) (Guarded i')" 1 i' 2] st(2) by simp
  moreover have "race_step 2 (?at clus (Chosen i) (Chosen i')) (?at ?c1 Finished (Chosen i'))"
    using race_step.stop [of "?at clus (Chosen i) (Chosen i')" 0 i E ?c1 evs 2] c1(1) by simp
  moreover have "race_step 2 (?at ?c1 Finished (Chosen i')) (?at (set_member i' n' ?c1) Finished Finished)"
    using race_step.stop [of "?at ?c1 Finished (Chosen i')" 1 i' E "set_member i' n' ?c1" evs' 2] c2(1) by simp
  ultimately have "(race_step 2)\<^sup>*\<^sup>* (quiet clus) (?at (set_member i' n' ?c1) Finished Finished)"
    unfolding two_at_quiet by (meson rtranclp.rtrancl_refl rtranclp.rtrancl_into_rtrancl)
  then show ?thesis using active
    by (intro exI [of _ "?at (set_member i' n' ?c1) Finished Finished"]) simp
qed

lemma sample_active: "ActiveNodeN sample_nodes = 3" "Quorum sample_nodes = 2" "all_srv sample_nodes"
  "member_at sample_nodes 0 = Some (sample_member 0)" "member_at sample_nodes 1 = Some (sample_member 1)"
  "member_at sample_nodes 2 = Some (sample_member 2)"
  by (simp_all add: ActiveNodeN_eq Quorum_def all_srv_def member_at_def)

theorem overlapping_stops_are_bounded_witness:
  "\<exists>clus s. Quorum clus = 2 \<and> ActiveNodeN clus = 2 \<and> (race_step 2)\<^sup>*\<^sup>* (quiet clus) s
     \<and> ActiveNodeN (shared s) = 0 \<and> Quorum clus \<le> ActiveNodeN (shared s) + 2"
proof -
  obtain m' evs where c: "Cluster_Stop sample_env 0 sample_nodes = (set_member 0 m' sample_nodes, evs, Returns ())" "is_stopped m'"
    using ready_stop_eq [OF sample_active(3,4)] by blast
  let ?c = "set_member 0 m' sample_nodes"
  have srv: "all_srv ?c" using Cluster_Stop_srv [OF sample_active(3), of sample_env 0] c(1) by simp
  have a: "ActiveNodeN ?c = 2" "Quorum ?c = 2"
    using ActiveNodeN_set_member [OF sample_active(4), of m'] c(2) sample_active(1,2) by simp_all
  have m: "member_at ?c 1 = Some (sample_member 1)" "member_at ?c 2 = Some (sample_member 2)"
    using member_at_set_member [OF sample_active(4), of m'] sample_active(5,6) by simp_all
  obtain s where s: "(race_step 2)\<^sup>*\<^sup>* (quiet ?c) s" "ActiveNodeN (shared s) + 2 = ActiveNodeN ?c"
    using two_overlap [OF srv _ m(1) _ m(2)] a by auto
  have "Quorum ?c \<le> ActiveNodeN ?c + 2" using a by simp
  from overlapping_stops_are_bounded [OF srv this s(1)] s a show ?thesis
    by (intro exI [of _ ?c] exI [of _ s]) simp
qed

end
