(* ===== verification/WebShutdown.thy ===== *)
theory WebShutdown
  imports WebStop
begin

text \<open>
  Stopping while the background loops run. \<open>Server.Stop\<close> closes the stop channel, closes the HTTP
  server and waits for its goroutine, but not for \<open>updateClusterStatus\<close> and \<open>cleanCache\<close>. So
  \<open>Stop\<close> is cut into its calls and interleaved with the loops, each of which is in its
  \<open>select\<close>, past it (a round is under way), or has returned. Requests are taken up to the start of \<open>Stop\<close>; a handler
  still running then is left out (\<open>net/http\<close> recovers its panics, unlike those of the loops).
\<close>

section \<open>The loops and Stop in steps\<close>

datatype loop_at = Selecting | Awake | Ended

text \<open>The loop goes back to its \<open>select\<close>. The timer is new, so a closed channel is taken at once. A
  loop that is already waiting takes whichever comes first: its timer goes off, or the channel is
  closed.\<close>

definition enter_select :: "bool \<Rightarrow> loop_at" where
  "enter_select closed = (if closed then Ended else Selecting)"

definition see_close :: "loop_at \<Rightarrow> loop_at" where
  "see_close l = (if l = Selecting then Ended else l)"

lemma see_close_simps [simp]: "see_close Selecting = Ended" "see_close Awake = Awake" "see_close Ended = Ended"
  "see_close l \<noteq> Selecting"
  by (simp_all add: see_close_def)

datatype stop_at = Running | Draining | ShuttingDown | Dropping | Stopped

definition close_stopc :: "server \<Rightarrow> server" where
  "close_stopc s = s\<lparr>srvStopped := True\<rparr>"

definition set_cluster :: "cluster option \<Rightarrow> globals \<Rightarrow> globals" where
  "set_cluster c g = g\<lparr>web_of := (web_of g)\<lparr>globalCluster := c\<rparr>\<rparr>"

lemma Server_Stop_steps:
  assumes "\<not> srvLocked s" "httpServer s" "\<not> srvStopped s"
    and "serve_goroutine (Some ErrServerClosed) (close_stopc s) g = Some (s1, g1)"
    and "globalCluster (web_of g1) = Some clus" "Cluster_Shutdown Es order clus = (clus', evs, Returns ())"
  shows "Server_Stop Es order s g = Some (s1, set_cluster None (set_cluster (Some clus') g1), evs, Returns ())"
  using assms by (simp add: Server_Stop_def close_stopc_def set_cluster_def)

record process =
  server_of :: server
  glob :: globals
  updater :: loop_at
  cleaner :: loop_at
  stopper :: stop_at
  crashed :: bool

definition set_web :: "web \<Rightarrow> process \<Rightarrow> process" where
  "set_web w p = p\<lparr>glob := (glob p)\<lparr>web_of := w\<rparr>\<rparr>"

abbreviation web_at :: "process \<Rightarrow> web" where
  "web_at p \<equiv> web_of (glob p)"

inductive goroutine_step :: "process \<Rightarrow> process \<Rightarrow> bool" where
  request: "stopper p = Running \<Longrightarrow> fair_world sw \<Longrightarrow> serve sw req (web_at p) = Some (w', evs, r)
    \<Longrightarrow> goroutine_step p (set_web w' p)"
| update_wakes: "updater p = Selecting \<Longrightarrow> goroutine_step p (p\<lparr>updater := Awake\<rparr>)"
| update: "updater p = Awake \<Longrightarrow> enumerates keys (web_at p) \<Longrightarrow> update_round Es order keys (web_at p) = Returns w'
    \<Longrightarrow> goroutine_step p ((set_web w' p)\<lparr>updater := enter_select (srvStopped (server_of p))\<rparr>)"
| update_panics: "updater p = Awake \<Longrightarrow> enumerates keys (web_at p) \<Longrightarrow> update_round Es order keys (web_at p) = Panics e
    \<Longrightarrow> goroutine_step p (p\<lparr>crashed := True\<rparr>)"
| clean_wakes: "cleaner p = Selecting \<Longrightarrow> goroutine_step p (p\<lparr>cleaner := Awake\<rparr>)"
| clean: "cleaner p = Awake
    \<Longrightarrow> goroutine_step p ((set_web (clean_round now (web_at p)) p)\<lparr>cleaner := enter_select (srvStopped (server_of p))\<rparr>)"
| stop_begins: "stopper p = Running \<Longrightarrow> \<not> srvLocked (server_of p) \<Longrightarrow> httpServer (server_of p) \<Longrightarrow> \<not> srvStopped (server_of p)
    \<Longrightarrow> goroutine_step p (p\<lparr>server_of := close_stopc (server_of p), updater := see_close (updater p),
          cleaner := see_close (cleaner p), stopper := Draining\<rparr>)"
| stop_http: "stopper p = Draining \<Longrightarrow> serve_goroutine (Some ErrServerClosed) (server_of p) (glob p) = Some (s1, g1)
    \<Longrightarrow> goroutine_step p (p\<lparr>server_of := s1, glob := g1, stopper := ShuttingDown\<rparr>)"
| stop_cluster: "stopper p = ShuttingDown \<Longrightarrow> globalCluster (web_at p) = Some clus
    \<Longrightarrow> Cluster_Shutdown Es order clus = (clus', evs, Returns ())
    \<Longrightarrow> goroutine_step p (p\<lparr>glob := set_cluster (Some clus') (glob p), stopper := Dropping\<rparr>)"
| stop_drops: "stopper p = Dropping
    \<Longrightarrow> goroutine_step p (p\<lparr>glob := set_cluster None (glob p), stopper := Stopped\<rparr>)"

inductive_cases goroutine_stepE: "goroutine_step p p'"

text \<open>A panic of a loop ends the process.\<close>

definition process_step :: "process \<Rightarrow> process \<Rightarrow> bool" where
  "process_step p p' = (\<not> crashed p \<and> goroutine_step p p')"

definition started :: "server \<Rightarrow> globals \<Rightarrow> process" where
  "started s g = \<lparr>server_of = s, glob = g, updater = Selecting, cleaner = Selecting, stopper = Running, crashed = False\<rparr>"

lemma set_web_simps [simp]:
  "web_at (set_web w p) = w" "stopper (set_web w p) = stopper p" "updater (set_web w p) = updater p"
  "cleaner (set_web w p) = cleaner p" "server_of (set_web w p) = server_of p" "crashed (set_web w p) = crashed p"
  by (simp_all add: set_web_def)

lemma set_cluster_simps [simp]: "globalCluster (web_of (set_cluster c g)) = c" "userCache (web_of (set_cluster c g)) = userCache (web_of g)"
  by (simp_all add: set_cluster_def)

lemma rootCancel_simps [simp]:
  "globalCluster (web_of (rootCancel g)) = map_option (\<lambda>clus. clus\<lparr>rootCanceled := True\<rparr>) (globalCluster (web_of g))"
  "userCache (web_of (rootCancel g)) = userCache (web_of g)"
  by (simp_all add: rootCancel_def)

section \<open>The cluster is there until Stop drops it\<close>

definition process_inv :: "process \<Rightarrow> bool" where
  "process_inv p = ((stopper p = Running \<longrightarrow> web_inv (web_at p))
     \<and> (stopper p \<noteq> Running \<longrightarrow> srvStopped (server_of p) \<and> updater p \<noteq> Selecting)
     \<and> (stopper p \<noteq> Stopped \<longrightarrow> globalCluster (web_at p) \<noteq> None)
     \<and> (crashed p \<longrightarrow> stopper p = Stopped \<and> updater p = Awake \<and> userCache (web_at p) \<noteq> Map.empty))"

lemma update_round_cluster:
  "update_round Es order keys w = Returns w' \<Longrightarrow> globalCluster w \<noteq> None \<Longrightarrow> globalCluster w' \<noteq> None"
  by (auto simp: update_round_def split: if_splits option.splits)

lemma update_round_panics:
  "update_round Es order keys w = Panics e \<Longrightarrow> enumerates keys w
     \<Longrightarrow> globalCluster w = None \<and> userCache w \<noteq> Map.empty"
  by (auto simp: update_round_def enumerates_def split: if_splits option.splits)

lemma web_inv_Some: "web_inv w \<Longrightarrow> globalCluster w \<noteq> None"
  by (auto elim: web_inv_cluster)

lemma goroutine_step_inv:
  assumes "goroutine_step p p'" "process_inv p" "\<not> crashed p" shows "process_inv p'"
  using assms(1)
proof cases
  case (request sw req w' evs r)
  then have "web_inv w'" using assms(2) serve_ok [of "web_at p" sw req w' evs r]
    by (auto simp: process_inv_def outcome_ok_def)
  then show ?thesis using request assms web_inv_Some by (simp add: process_inv_def)
next
  case (update keys Es order w')
  have "web_inv w'" if "web_inv (web_at p)" using update_round_ok [OF that update(4)] by simp
  then show ?thesis using update assms update_round_cluster [OF update(4)]
    by (simp add: process_inv_def enter_select_def)
next
  case (update_panics keys Es order e)
  then show ?thesis using assms update_round_panics [OF update_panics(4,3)] by (auto simp: process_inv_def)
next
  case (clean now)
  have "globalCluster (clean_round now (web_at p)) = globalCluster (web_at p)" by (simp add: clean_round_def)
  then show ?thesis using clean assms clean_round_ok by (simp add: process_inv_def)
qed (use assms in \<open>auto simp: process_inv_def serve_goroutine_def close_stopc_def\<close>)

lemma process_steps_inv: "process_step\<^sup>*\<^sup>* p p' \<Longrightarrow> process_inv p \<Longrightarrow> process_inv p'"
  by (induction rule: rtranclp_induct) (auto dest: goroutine_step_inv simp: process_step_def)

lemma started_inv: "web_inv (web_of g) \<Longrightarrow> process_inv (started s g)"
  using web_inv_Some by (simp add: process_inv_def started_def)

lemma ended_stays: "process_step\<^sup>*\<^sup>* p p' \<Longrightarrow> updater p = Ended \<Longrightarrow> \<not> crashed p
    \<Longrightarrow> updater p' = Ended \<and> \<not> crashed p'"
proof (induction rule: rtranclp_induct)
  case (step q r)
  then have "goroutine_step q r" "updater q = Ended" "\<not> crashed q" by (simp_all add: process_step_def)
  then show ?case by cases simp_all
qed simp

section \<open>A serving cluster is open\<close>

lemma node_step_open: "node_step E clus clus' \<Longrightarrow> stopcClosed clus' = stopcClosed clus"
  by (erule node_stepE)
    (auto simp: Cluster_Stop_def Cluster_Restart_def set_member_def split: option.splits prod.splits)

lemma update_open: "stopcClosed (fst (UpdateMemberStatus Es order clus)) = stopcClosed clus"
  by (simp add: UpdateMemberStatus_def split: prod.split)

lemma serving_open: "serving w \<Longrightarrow> globalCluster w = Some clus \<Longrightarrow> \<not> stopcClosed clus"
proof (induction arbitrary: clus rule: serving.induct)
  case (start st g port g' evs server)
  obtain c dir evs' where d: "Cluster_Start (start_env st) (start_envs st) (start_leads st) (start_order st)
      (wait_order st) (cluster_config dir (rootPort g)) = Some (Some c, evs', Returns None)"
    and w: "web_of g' = (web_of g)\<lparr>webserverPort := port, globalCluster := Some c,
       clientRequestLimiter := NewRequestLimiter clientRequestIntervalLimit,
       stopRestartLimiter := NewRequestLimiter stopRestartIntervalLimit\<rparr>"
    by (rule StartServer_cluster [OF start(2)])
  then show ?case using Cluster_Start_open [OF d] start(3) by simp
next
  case (step w w')
  obtain c where c: "globalCluster w = Some c" using serving_process_cluster [OF step(1)] .
  from step(2) show ?case
  proof cases
    case (request sw req evs r)
    then have "node_step (cenv (req_of sw)) c clus"
      using serve_ok [OF serving_inv [OF step(1)]] c step(4) by (fastforce simp: outcome_ok_def)
    then show ?thesis using node_step_open step(3) c by auto
  next
    case (update keys Es order)
    then show ?thesis using c step(3,4) by (auto simp: update_round_def update_open split: if_splits)
  next
    case (clean now)
    then show ?thesis using c step(3,4) by (simp add: clean_round_def)
  qed
qed

lemma serving_shutdown:
  assumes "serving w" "globalCluster w = Some clus"
  shows "\<exists>clus' evs. Cluster_Shutdown Es [0..<5] clus = (clus', evs, Returns ())"
proof -
  have "cluster_ready clus" using serving_inv [OF assms(1)] assms(2) by (simp add: web_inv_def)
  then have "all_srv clus" "length (Members clus) = 5" by (simp_all add: cluster_ready_def cluster_inv_def)
  moreover from this have "set [0..<5] \<subseteq> {..<length (Members clus)}" by (simp only: set_upt) auto
  ultimately show ?thesis by (intro Shutdown_returns serving_open [OF assms]) (simp_all only: distinct_upt)
qed

lemma first_step: "process_step p q \<Longrightarrow> process_step\<^sup>*\<^sup>* q r \<Longrightarrow> process_step\<^sup>*\<^sup>* p r"
  by (rule converse_rtranclp_into_rtranclp)

lemma no_step: "process_step\<^sup>*\<^sup>* p p"
  by simp

lemma started_simps [simp]:
  "updater (started s g) = Selecting" "stopper (started s g) = Running" "\<not> crashed (started s g)"
  "server_of (started s g) = s" "glob (started s g) = g"
  by (simp_all add: started_def)

text \<open>The updater wakes up, and the whole of \<open>Stop\<close> runs before it goes on.\<close>

lemma stop_run_from:
  assumes p: "updater p = Selecting" "stopper p = Running" "\<not> crashed p" "server_of p = s"
    and s: "httpServer s" "\<not> srvLocked s" "\<not> srvStopped s"
    and g: "serve_goroutine (Some ErrServerClosed) (close_stopc s) (glob p) = Some (s1, g1)"
    and c: "globalCluster (web_of g1) = Some clus" "Cluster_Shutdown Es order clus = (clus', evs, Returns ())"
  shows "process_step\<^sup>*\<^sup>* p (p\<lparr>updater := Awake, server_of := s1, cleaner := see_close (cleaner p),
    glob := set_cluster None (set_cluster (Some clus') g1), stopper := Stopped\<rparr>)"
proof -
  obtain a where a: "a = p\<lparr>updater := Awake\<rparr>" by blast
  obtain b where b: "b = a\<lparr>server_of := close_stopc s, updater := Awake, cleaner := see_close (cleaner a), stopper := Draining\<rparr>" by blast
  obtain d where d: "d = b\<lparr>server_of := s1, glob := g1, stopper := ShuttingDown\<rparr>" by blast
  obtain e where e: "e = d\<lparr>glob := set_cluster (Some clus') (glob d), stopper := Dropping\<rparr>" by blast
  obtain f where f: "f = e\<lparr>glob := set_cluster None (glob e), stopper := Stopped\<rparr>" by blast
  have 1: "process_step p a" unfolding process_step_def a using p by (blast intro: goroutine_step.update_wakes)
  have 2: "process_step a b" using goroutine_step.stop_begins [of a] p s by (simp add: process_step_def b a)
  have 3: "process_step b d" using goroutine_step.stop_http [of b s1 g1] p g by (simp add: process_step_def d b a)
  have 4: "process_step d e" using goroutine_step.stop_cluster [OF _ _ c(2), of d] c(1) p
    by (simp add: process_step_def e d b a)
  have 5: "process_step e f" using goroutine_step.stop_drops [of e] p by (simp add: process_step_def f e d b a)
  have "process_step\<^sup>*\<^sup>* p f"
    by (rule first_step [OF 1 first_step [OF 2 first_step [OF 3 first_step [OF 4 first_step [OF 5 no_step]]]]])
  moreover have "f = p\<lparr>updater := Awake, server_of := s1, cleaner := see_close (cleaner p),
    glob := set_cluster None (set_cluster (Some clus') g1), stopper := Stopped\<rparr>"
    by (cases p) (simp add: f e d b a)
  ultimately show ?thesis by simp
qed

lemma crashing_run:
  assumes "serving (web_of g)" "userCache (web_of g) \<noteq> Map.empty"
    and "httpServer s" "\<not> srvLocked s" "\<not> srvStopped s"
  shows "\<exists>p Es evs. process_step\<^sup>*\<^sup>* (started s g) p \<and> crashed p
    \<and> Server_Stop Es [0..<5] s g = Some (server_of p, glob p, evs, Returns ())"
proof -
  have inv: "web_inv (web_of g)" by (rule serving_inv [OF assms(1)])
  obtain clus where c: "globalCluster (web_of g) = Some clus" using web_inv_cluster [OF inv] .
  obtain Es :: "nat \<Rightarrow> env" and clus' evs where sh: "Cluster_Shutdown Es [0..<5] clus = (clus', evs, Returns ())"
    using serving_shutdown [OF assms(1) c] by blast
  let ?clus = "clus\<lparr>rootCanceled := True\<rparr>" and ?s1 = "(close_stopc s)\<lparr>srvDone := True\<rparr>" and ?g1 = "rootCancel g"
  have g1: "serve_goroutine (Some ErrServerClosed) (close_stopc s) g = Some (?s1, ?g1)" by (simp add: serve_goroutine_def)
  have c1: "globalCluster (web_of ?g1) = Some ?clus" using c by simp
  have sh1: "Cluster_Shutdown Es [0..<5] ?clus = (clus', evs, Returns ())"
    using sh Shutdown_canceled [OF serving_open [OF assms(1) c]] by simp
  have "finite (dom (userCache (web_of g)))" using inv by (simp add: web_inv_def cache_inv_def)
  from finite_distinct_list [OF this] obtain keys where keys: "distinct keys" "set keys = dom (userCache (web_of g))"
    by blast
  let ?p = "started s g"
  let ?c' = "set_cluster (Some clus') ?g1"
  let ?e = "?p\<lparr>updater := Awake, server_of := ?s1, cleaner := see_close (cleaner ?p), glob := set_cluster None ?c', stopper := Stopped\<rparr>"
  have run: "process_step\<^sup>*\<^sup>* ?p ?e"
    by (rule stop_run_from [OF started_simps(1-4) assms(3-5) _ c1 sh1]) (simp only: started_simps g1)
  have "set keys \<noteq> {}" unfolding keys(2) using assms(2) by simp
  then have ne: "keys \<noteq> []" by auto
  have k: "enumerates keys (web_at ?e)" using keys by (simp add: enumerates_def)
  have "update_round Es [] keys (web_at ?e) = Panics nil_panic" using ne by (simp add: update_round_def)
  then have 6: "process_step ?e (?e\<lparr>crashed := True\<rparr>)"
    using goroutine_step.update_panics [of ?e keys Es "[]"] k by (simp add: process_step_def)
  have "process_step\<^sup>*\<^sup>* (started s g) (?e\<lparr>crashed := True\<rparr>)"
    using run 6 by (rule rtranclp.rtrancl_into_rtrancl)
  moreover have "Server_Stop Es [0..<5] s g = Some (?s1, set_cluster None ?c', evs, Returns ())"
    by (rule Server_Stop_steps [OF assms(4,3,5) g1 c1 sh1])
  ultimately show ?thesis by (intro exI [of _ "?e\<lparr>crashed := True\<rparr>"]) auto
qed

section \<open>Properties\<close>

text \<open>C11 (safety). Serving requests, taking rounds and being stopped, in any order, the process only
  dies, of a panic in its loops, once \<open>Stop\<close> has dropped the cluster, with a user in the cache, and
  only of a round of \<open>updateClusterStatus\<close> that has been under way since before \<open>Stop\<close> closed the
  channel: from a state in which \<open>Stop\<close> has begun and no round is under way, it never does. So a
  \<open>Stop\<close> that waited for the loop would be safe.\<close>

theorem only_a_late_round_crashes:
  assumes "serving (web_of g)" "process_step\<^sup>*\<^sup>* (started s g) p"
  shows "(crashed p \<longrightarrow> stopper p = Stopped \<and> updater p = Awake \<and> userCache (web_at p) \<noteq> Map.empty)
    \<and> (stopper p \<noteq> Running \<and> updater p \<noteq> Awake \<longrightarrow> (\<forall>p'. process_step\<^sup>*\<^sup>* p p' \<longrightarrow> \<not> crashed p'))"
proof -
  have inv: "process_inv p" by (rule process_steps_inv [OF assms(2) started_inv [OF serving_inv [OF assms(1)]]])
  then have dies: "crashed p \<longrightarrow> stopper p = Stopped \<and> updater p = Awake \<and> userCache (web_at p) \<noteq> Map.empty"
    and left: "stopper p \<noteq> Running \<longrightarrow> updater p \<noteq> Selecting" by (simp_all add: process_inv_def)
  have "\<not> crashed p'" if "stopper p \<noteq> Running" "updater p \<noteq> Awake" "process_step\<^sup>*\<^sup>* p p'" for p'
  proof -
    have "updater p = Ended" using left that(1,2) by (cases "updater p") simp_all
    moreover have "\<not> crashed p" using dies that(2) by blast
    ultimately show ?thesis using ended_stays [OF that(3)] by blast
  qed
  with dies show ?thesis by blast
qed

text \<open>C12 (error). \<open>Stop\<close> does not wait for it: a serving process with a user in the cache has a run in
  which \<open>Stop\<close> does all it does and returns, and a round that had begun before then calls
  \<open>UpdateMemberStatus\<close> on the nil cluster, which ends the process with a panic.\<close>

theorem stop_can_crash_the_process:
  assumes "serving (web_of g)" "userCache (web_of g) \<noteq> Map.empty"
    and "httpServer s" "\<not> srvLocked s" "\<not> srvStopped s"
  shows "\<exists>p Es evs. process_step\<^sup>*\<^sup>* (started s g) p \<and> crashed p
    \<and> Server_Stop Es [0..<5] s g = Some (server_of p, glob p, evs, Returns ())"
  using crashing_run [OF assms] .

text \<open>A visit leaves its user in the cache.\<close>

lemma first_visit:
  assumes "fair_world sw" "Path req = ''/conn''" "Method req = ''GET''"
  shows "\<exists>u w' evs r. serve sw req w = Some (w', evs, r) \<and> userCache w' u \<noteq> None"
proof -
  obtain u where u: "generateUserID req = Returns u" using generateUserID_returns by blast
  have "slice (stamp sw) 0 13 = Returns (take 13 (stamp sw))" using assms(1) by (simp add: slice_ok fair_world_def)
  then have "\<exists>w' evs r. serve sw req w = Some (w', evs, r) \<and> userCache w' u \<noteq> None"
    using u assms(2,3) by (cases "userCache w u") (simp_all add: serve_def withCache_def connectHandler_def)
  then show ?thesis by blast
qed

text \<open>The sample process after a first visit.\<close>

lemma sample_visited:
  "\<exists>(g :: globals) (s :: server). serving (web_of g) \<and> userCache (web_of g) \<noteq> Map.empty
     \<and> httpServer s \<and> \<not> srvLocked s \<and> \<not> srvStopped s"
proof -
  obtain g evs s where start: "StartServer sample_start_world 2200 sample_globals = Some (g, evs, Returns (Inr s))"
    using sample_StartServer by blast
  have s: "httpServer s" "\<not> srvLocked s" "\<not> srvStopped s"
    by (rule StartServer_cluster [OF start], assumption)+
  have g: "serving (web_of g)" by (rule serving.start [OF sample_fair_start start])
  let ?sw = "sample_serve_world creq" and ?req = "sample_request ''GET'' ''/conn''"
  have "fair_world ?sw" "Path ?req = ''/conn''" "Method ?req = ''GET''"
    by (simp_all add: sample_fair sample_request_def)
  from first_visit [OF this] obtain u w' evs' r
    where w': "serve ?sw ?req (web_of g) = Some (w', evs', r)" "userCache w' u \<noteq> None" by blast
  then have c: "userCache w' \<noteq> Map.empty" by auto
  have "serving w'" by (rule serving.step [OF g web_step.request [OF sample_fair w'(1)]])
  then have "serving (web_of (g\<lparr>web_of := w'\<rparr>)) \<and> userCache (web_of (g\<lparr>web_of := w'\<rparr>)) \<noteq> Map.empty"
    using c by simp
  with s show ?thesis by blast
qed

theorem only_a_late_round_crashes_witness:
  "\<exists>s g p. crashed p \<and> stopper p = Stopped \<and> updater p = Awake \<and> process_step\<^sup>*\<^sup>* (started s g) p"
proof -
  obtain g :: globals and s :: server where g: "serving (web_of g)" "userCache (web_of g) \<noteq> Map.empty"
    "httpServer s" "\<not> srvLocked s" "\<not> srvStopped s" using sample_visited by blast
  from crashing_run [OF g] obtain p where p: "process_step\<^sup>*\<^sup>* (started s g) p" "crashed p" by blast
  from only_a_late_round_crashes [OF g(1) p(1)] p show ?thesis by blast
qed

theorem stop_can_crash_the_process_witness:
  "\<exists>s g p Es evs. process_step\<^sup>*\<^sup>* (started s g) p \<and> crashed p
    \<and> Server_Stop Es [0..<5] s g = Some (server_of p, glob p, evs, Returns ())"
proof -
  obtain g :: globals and s :: server where g: "serving (web_of g)" "userCache (web_of g) \<noteq> Map.empty"
    "httpServer s" "\<not> srvLocked s" "\<not> srvStopped s" using sample_visited by blast
  from stop_can_crash_the_process [OF g] show ?thesis by blast
qed

end
