(* ===== verification/Spec2Isabelle.thy ===== *)
theory Spec2Isabelle
  imports ClusterpbTheorems ClusterTheorems ClusterOpsTheorems ClusterMembership UpdateRace
    WebTheorems WebStop WebRace WebShutdown
begin

text \<open>
  Verification development for the Go code of etcdlabs (paths below are under \<open>src/\<close>).

  \<^bold>\<open>The program.\<close> \<open>cmd/backend-web-server/main.go\<close> starts a web server (\<open>backend/web\<close>), which starts a
  cluster of five embedded etcd servers (\<open>cluster\<close>) and lets visitors read and write keys and stop
  and restart nodes through HTTP. Client requests pass two rate limiters (\<open>pkg/ratelimit\<close>); a user
  cache records who is there; two background loops clean the cache and refresh the status of the
  members; the status travels as the protobuf message \<open>MemberStatus\<close> (\<open>cluster/clusterpb\<close>).

  \<^bold>\<open>Theories and sources.\<close>
  \<^item> \<open>Prelude\<close>, \<open>GoStrings\<close>, \<open>GoUrl\<close>, \<open>GoTime\<close>, \<open>SHA512\<close>: outcomes that return or panic, signed
    64-bit arithmetic, and the parts of the Go library the code calls.
  \<^item> \<open>Varint\<close>, \<open>Clusterpb\<close>, \<open>ClusterpbDecode\<close>: \<open>clusterpb.pb.go\<close> and \<open>member_status.go\<close>. A slice is
    a list of bytes, a store outside it a panic (\<open>None\<close>), an \<open>int\<close> wraps at 64 bits.
    \<open>ClusterpbRoundtrip\<close>, \<open>ClusterpbSafety\<close>, \<open>ClusterpbUnknown\<close>: the encoding as a specification,
    its inversion, where decoding panics, unknown fields and merging. \<open>ClusterpbTheorems\<close>: the
    properties.
  \<^item> \<open>ClusterTypes\<close>, \<open>Member\<close>, \<open>WaitLeader\<close>: \<open>member.go\<close>. The records \<open>member\<close>, \<open>cluster\<close>, \<open>config\<close>
    are the structs; \<open>env\<close> is what the code meets outside itself (etcd, clients, clock, files).
    The loops of \<open>WaitForLeader\<close> are partial functions, \<open>None\<close> meaning that they do not return.
  \<^item> \<open>Cluster\<close>, \<open>ClusterOps\<close>: \<open>cluster.go\<close>, \<open>cluster_other.go\<close>, \<open>utils.go\<close>. A group of goroutines
    is run in a given order of completion; theorems hold for every order.
  \<^item> \<open>MemberInv\<close>, \<open>ClusterInv\<close>, \<open>ClusterReach\<close>: the invariant of members and clusters, proved once
    for every kind of goroutine group in the locales \<open>member_method\<close>, \<open>errgroup_method\<close> and
    \<open>waiting_method\<close>, and for every state of \<open>running\<close>, the reachable clusters. \<open>ClusterFacts\<close>,
    \<open>ClusterStart\<close>, \<open>ClusterElect\<close>: what the groups compute, what \<open>Start\<close> configures, and that it
    elects the agreed leader; the sample worlds of the witnesses. \<open>ClusterTheorems\<close>,
    \<open>ClusterOpsTheorems\<close>, \<open>ClusterMembership\<close>: the properties. \<open>MemberLife\<close>: \<open>Stop\<close>, \<open>Restart\<close> and
    \<open>FetchMemberStatus\<close> of one member cut where they take \<open>statusLock\<close>, with the server they
    control (\<open>life_step\<close>), with and without overlap. \<open>UpdateRace\<close>: the goroutines of
    \<open>UpdateMemberStatus\<close> interleaved on the shared cluster (\<open>update_step\<close>).
  \<^item> \<open>RateLimit\<close>: \<open>ratelimit.go\<close>. The locale \<open>request_limiter_laws\<close> is the interface
    \<open>RequestLimiter\<close>; \<open>traffic_step\<close> interleaves the \<open>Check\<close> and \<open>Advance\<close> of many requests.
  \<^item> \<open>WebId\<close>, \<open>WebRand\<close>: \<open>utils_id.go\<close>, \<open>utils.go\<close>. \<open>WebCache\<close>: the package variables (\<open>web\<close>), the
    cache, \<open>/conn\<close> and \<open>/server-status\<close> of \<open>handler.go\<close>, and \<open>context.go\<close>. \<open>ClientRequest\<close>:
    \<open>clientRequestHandler\<close> with one definition per action. \<open>Server\<close>: \<open>server.go\<close> and \<open>main.go\<close>.
  \<^item> \<open>WebInv\<close>, \<open>WebServing\<close>, \<open>WebReach\<close>: the invariant \<open>web_inv\<close>, preserved layer by layer (cluster,
    limiters, actions, handlers, cache, routes), and \<open>serving\<close>, the states of a serving process:
    \<open>StartServer\<close> returned, then requests and background rounds in any order. The locale
    \<open>node_control\<close> is what the web server relies on when it stops and restarts nodes; it is
    interpreted on \<open>Cluster_Stop\<close> and \<open>Cluster_Restart\<close>. \<open>WebReply\<close>: the shape of replies.
    \<open>WebSample\<close>: a sample process. \<open>WebTheorems\<close>, \<open>WebStop\<close>: the properties. \<open>WebRace\<close>: the
    \<open>stop-node\<close> action cut into the steps between which requests interleave. \<open>WebShutdown\<close>: the
    background loops and the calls of \<open>Server.Stop\<close>, interleaved (\<open>goroutine_step\<close>).

  \<^bold>\<open>What the properties show.\<close> The codec: round trip, refinement of an append-only encoder, merging,
  unknown fields, termination of skipping, and the one length that makes decoding panic. The
  cluster: its invariant over all histories, election, lookup of a member by its endpoint, the
  effect of every operation, order independence of status updates, and the defects of \<open>Remove\<close>,
  of a failed \<open>Add\<close> and of waiting after cancellation. The web server: every request is answered
  and can panic only on a lost etcd response; requests alone keep two nodes active,
  one less for every request that overlaps; replies are
  well formed and escape what they echo; limits on grants and on the user list; a second \<open>Stop\<close>
  panics, and the first can leave a loop behind that does. What overlaps: the steps of a member's
  methods make up the methods, the goroutines of \<open>UpdateMemberStatus\<close> do not interfere, the recorded status
  follows the server that answers unless a status round
  overlaps with \<open>Stop\<close> or \<open>Restart\<close>, and then it need not; each request between \<open>Check\<close> and
  \<open>Advance\<close> can be one more grant.

  \<^bold>\<open>Fuel and bounds.\<close> No definition of the code runs on fuel, except \<open>chunks\<close> of \<open>SHA512\<close>, whose
  number of blocks is computed from the length. Loops that may run forever are partial functions
  into \<open>option\<close>, and termination is stated as such: under which answers they return. Slices and
  strings are taken to be shorter than \<open>2^63\<close> bytes where a property says so.

  \<^bold>\<open>Assumptions in the model.\<close> A handler runs as one step: requests that overlap inside a handler
  are covered for \<open>stop-node\<close> (\<open>WebRace\<close>), between \<open>Check\<close> and \<open>Advance\<close> (\<open>RateLimit\<close>), between a
  status round and \<open>Stop\<close> or \<open>Restart\<close> of a member (\<open>MemberLife\<close>), and between \<open>Server.Stop\<close> and the
  loops (\<open>WebShutdown\<close>); the steps there are single calls or lock-protected accesses, and unlocked
  accesses count as single steps. That a closed server answers no status call, and where a
  property says so that an open one answers every call, is a hypothesis on the worlds of a status
  round (\<open>server_answers\<close>). A \<open>select\<close> that waits takes the first case that gets ready. Ports and
  sizes are unbounded integers where Go's wrap at 64 bits, which no usable port number reaches. Handlers still running when \<open>Server.Stop\<close> begins are left out. Panics in a handler are recovered by \<open>net/http\<close> and end only
  that request. Case mapping and trimming are Go's on ASCII. Paths that no handler is registered
  for, and the mux's redirects, are one answer. The servers that etcd starts keep the names and URLs
  of the configuration they were given (\<open>keeps_config\<close>), as \<open>embed.StartEtcd\<close> documents.

  \<^bold>\<open>Not modelled.\<close> Loggers and package comments; \<open>String\<close>, the descriptor and the registration calls
  of the generated code, which only use the protobuf runtime; flag parsing; the token bucket of
  \<open>golang.org/x/time/rate\<close> and the HyperLogLog counter, whose answers are arguments; JSON and HTTP
  transport; the TypeScript frontend, scripts and vendored packages.
\<close>

end
